theory Spec2Isabelle
  imports Complex_Main "HOL-Library.AList"
begin

chapter \<open>The model of the code\<close>

section \<open>Python exceptions\<close>

text \<open>
  Every exception the modelled code can raise is a value of this type; a function that
  may raise returns \<open>error + 'a\<close> with \<open>Inl\<close> for the exception.
\<close>

datatype error =
    KeyError
  | ValueError
  | IndexError
  | TypeError
  | AttributeError
  | NodeExistsError
  | NoNodeError
  | OtherError string

section \<open>bubuku/features/swap\_partitions.py\<close>

subsection \<open>TpData and the selection of the fat broker's partition\<close>

text \<open>
  \<^verbatim>\<open>TpData = namedtuple('TpData', ('topic', 'partition', 'size', 'replicas'))\<close>.
  Broker ids are compared with \<^verbatim>\<open>==\<close> and \<^verbatim>\<open>in\<close> only, so their type is a parameter
  \<open>'b\<close>. The field \<^verbatim>\<open>size\<close> is named \<open>size_kb\<close>, since \<open>size\<close> is a constant of HOL.
\<close>

record 'b TpData =
  topic :: string
  partition :: int
  size_kb :: int
  replicas :: "'b list"

text \<open>
  \<^verbatim>\<open>new_gap = abs(brokers_gap - 2 * abs(tp.size - partition_to_swap_size))\<close>
\<close>

definition new_gap :: "int \<Rightarrow> int \<Rightarrow> 'b TpData \<Rightarrow> int" where
  "new_gap brokers_gap partition_to_swap_size tp =
     \<bar>brokers_gap - 2 * \<bar>size_kb tp - partition_to_swap_size\<bar>\<bar>"

text \<open>
  The \<^verbatim>\<open>for tp in candidates\<close> loop of \<^verbatim>\<open>__find_best_swap_candidate\<close>, with its two
  variables \<^verbatim>\<open>matching_swap_partition\<close> and \<^verbatim>\<open>smallest_new_gap\<close> as accumulators.
\<close>

fun best_swap_loop ::
  "'b TpData list \<Rightarrow> int \<Rightarrow> int \<Rightarrow> 'b TpData option \<Rightarrow> int \<Rightarrow> 'b TpData option" where
  "best_swap_loop [] brokers_gap s matching_swap_partition smallest_new_gap =
     matching_swap_partition"
| "best_swap_loop (tp # candidates) brokers_gap s matching_swap_partition smallest_new_gap =
     (if new_gap brokers_gap s tp < smallest_new_gap
      then best_swap_loop candidates brokers_gap s (Some tp) (new_gap brokers_gap s tp)
      else best_swap_loop candidates brokers_gap s matching_swap_partition smallest_new_gap)"

text \<open>
  \<^verbatim>\<open>candidates.sort(key=attrgetter("size"), reverse=True)\<close> is a stable sort by
  descending size: \<open>sort_key\<close> is a stable insertion sort, here on the negated size.
\<close>

definition sort_by_size_desc :: "'b TpData list \<Rightarrow> 'b TpData list" where
  "sort_by_size_desc candidates = sort_key (\<lambda>tp. - size_kb tp) candidates"

definition find_best_swap_candidate ::
  "'b TpData list \<Rightarrow> int \<Rightarrow> int \<Rightarrow> 'b TpData option" where
  "find_best_swap_candidate candidates brokers_gap partition_to_swap_size =
     best_swap_loop (sort_by_size_desc candidates) brokers_gap partition_to_swap_size
       None brokers_gap"

subsection \<open>Finding the swap candidates\<close>

text \<open>
  \<^verbatim>\<open>topics_stats\<close> is a dict from topic to a dict from partition to size, and
  \<^verbatim>\<open>swap_partition_candidates\<close> a dict from broker id to a list of \<^verbatim>\<open>TpData\<close>; both are
  only indexed by key, so they are maps. A missing key is \<open>None\<close>.
\<close>

type_synonym topics_stats = "string \<rightharpoonup> (int \<rightharpoonup> int)"

type_synonym 'b partition_assignment = "(string \<times> int \<times> 'b list) list"

text \<open>
  \<^verbatim>\<open>
  if broker_id in replicas:
      if broker_id not in swap_partition_candidates:
          swap_partition_candidates[broker_id] = []
      swap_partition_candidates[broker_id].append(TpData(...))
  \<close>
\<close>

definition add_candidate ::
  "'b TpData \<Rightarrow> 'b \<Rightarrow> ('b \<rightharpoonup> 'b TpData list) \<Rightarrow> ('b \<rightharpoonup> 'b TpData list)" where
  "add_candidate tp broker_id swap_partition_candidates =
     (if broker_id \<in> set (replicas tp)
      then swap_partition_candidates
             (broker_id \<mapsto>
                (case swap_partition_candidates broker_id of None \<Rightarrow> [] | Some l \<Rightarrow> l) @ [tp])
      else swap_partition_candidates)"

text \<open>
  The loop \<^verbatim>\<open>for topic, partition, replicas in partition_assignment\<close> of
  \<^verbatim>\<open>__find_all_swap_candidates\<close>; each \<^verbatim>\<open>continue\<close> is a branch that leaves the dict as
  it is. The inner loop runs over \<^verbatim>\<open>[slim_broker_id, fat_broker_id]\<close> in this order.
\<close>

fun find_all_loop ::
  "'b partition_assignment \<Rightarrow> 'b \<Rightarrow> 'b \<Rightarrow> topics_stats \<Rightarrow>
   ('b \<rightharpoonup> 'b TpData list) \<Rightarrow> ('b \<rightharpoonup> 'b TpData list)" where
  "find_all_loop [] fat_broker_id slim_broker_id topics_stats swap_partition_candidates =
     swap_partition_candidates"
| "find_all_loop ((t, p, rs) # rest) fat_broker_id slim_broker_id topics_stats
       swap_partition_candidates =
     (case topics_stats t of
        None \<Rightarrow>
          find_all_loop rest fat_broker_id slim_broker_id topics_stats swap_partition_candidates
      | Some sizes \<Rightarrow>
          (case sizes p of
             None \<Rightarrow>
               find_all_loop rest fat_broker_id slim_broker_id topics_stats
                 swap_partition_candidates
           | Some sz \<Rightarrow>
               if fat_broker_id \<in> set rs \<and> slim_broker_id \<in> set rs
               then find_all_loop rest fat_broker_id slim_broker_id topics_stats
                      swap_partition_candidates
               else find_all_loop rest fat_broker_id slim_broker_id topics_stats
                      (fold (add_candidate
                               \<lparr>topic = t, partition = p, size_kb = sz, replicas = rs\<rparr>)
                         [slim_broker_id, fat_broker_id] swap_partition_candidates)))"

text \<open>
  \<^verbatim>\<open>__find_all_swap_candidates\<close>. The argument \<open>partition_assignment\<close> is the sequence
  that \<^verbatim>\<open>self.zk.load_partition_assignment()\<close> yields.
\<close>

definition find_all_swap_candidates ::
  "'b partition_assignment \<Rightarrow> 'b \<Rightarrow> 'b \<Rightarrow> topics_stats \<Rightarrow> ('b \<rightharpoonup> 'b TpData list)" where
  "find_all_swap_candidates partition_assignment fat_broker_id slim_broker_id topics_stats =
     find_all_loop partition_assignment fat_broker_id slim_broker_id topics_stats Map.empty"

subsection \<open>SwapPartitionsChange.run\<close>

text \<open>
  The disk statistics of one broker, \<^verbatim>\<open>{"disk": {"free_kb": .., "used_kb": ..},
  "topics": {topic: {partition: size_kb}}}\<close>, and \<^verbatim>\<open>size_stats\<close>, the dict from broker id to
  them. Both dicts are iterated, so they are association lists in iteration order.
\<close>

record broker_stats =
  free_kb :: int
  used_kb :: int
  topics :: "(string \<times> (int \<times> int) list) list"

text \<open>\<^verbatim>\<open>d.update(other)\<close>: every item of \<open>other\<close> is assigned in turn.\<close>

definition dict_update :: "('k \<rightharpoonup> 'v) \<Rightarrow> ('k \<times> 'v) list \<Rightarrow> ('k \<rightharpoonup> 'v)" where
  "dict_update d other = fold (\<lambda>(k, v) m. m(k \<mapsto> v)) other d"

text \<open>
  \<^verbatim>\<open>
  topics_stats = {}
  for broker_id, broker_stats in self.size_stats.items():
      for topic in broker_stats["topics"].keys():
          if topic not in topics_stats:
              topics_stats[topic] = {}
          topics_stats[topic].update(broker_stats["topics"][topic])
  \<close>
\<close>

definition merge_topic :: "string \<times> (int \<times> int) list \<Rightarrow> topics_stats \<Rightarrow> topics_stats" where
  "merge_topic item topics_stats =
     topics_stats
       (fst item \<mapsto>
          dict_update (case topics_stats (fst item) of None \<Rightarrow> Map.empty | Some m \<Rightarrow> m)
            (snd item))"

definition merge_topics_stats :: "('b \<times> broker_stats) list \<Rightarrow> topics_stats" where
  "merge_topics_stats size_stats =
     fold (\<lambda>(broker_id, stats) topics_stats. fold merge_topic (topics stats) topics_stats)
       size_stats Map.empty"

text \<open>
  \<^verbatim>\<open>min(xs, key=attrgetter("size"))\<close>: \<^verbatim>\<open>ValueError\<close> on an empty sequence, otherwise the
  first element of least size.
\<close>

fun min_by_size :: "'b TpData list \<Rightarrow> error + 'b TpData" where
  "min_by_size [] = Inl ValueError"
| "min_by_size (x # xs) =
     Inr (fold (\<lambda>tp best. if size_kb tp < size_kb best then tp else best) xs x)"

text \<open>
  \<^verbatim>\<open>
  [(tp1.topic, tp1.partition, [broker2 if r == broker1 else r for r in tp1.replicas]),
   (tp2.topic, tp2.partition, [broker1 if r == broker2 else r for r in tp2.replicas])]
  \<close>
\<close>

definition create_swap_partitions_json ::
  "'b TpData \<Rightarrow> 'b \<Rightarrow> 'b TpData \<Rightarrow> 'b \<Rightarrow> 'b partition_assignment" where
  "create_swap_partitions_json tp1 broker1 tp2 broker2 =
     [(topic tp1, partition tp1, map (\<lambda>r. if r = broker1 then broker2 else r) (replicas tp1)),
      (topic tp2, partition tp2, map (\<lambda>r. if r = broker2 then broker1 else r) (replicas tp2))]"

text \<open>The fields of a \<^verbatim>\<open>SwapPartitionsChange\<close>; \<^verbatim>\<open>self.zk\<close> is passed separately.\<close>

record 'b SwapPartitionsChange =
  fat_broker_id :: 'b
  slim_broker_id :: 'b
  gap :: int
  size_stats :: "('b \<times> broker_stats) list"
  to_move :: "'b partition_assignment option"

text \<open>
  What \<^verbatim>\<open>run\<close> calls outside this file: \<^verbatim>\<open>should_be_cancelled\<close> of the base class
  \<^verbatim>\<open>BaseRebalanceChange\<close> (module \<^verbatim>\<open>bubuku.features.rebalance\<close>), and on \<^verbatim>\<open>self.zk\<close> the
  methods \<^verbatim>\<open>load_partition_assignment\<close> and \<^verbatim>\<open>reallocate_partitions\<close>. They are parameters
  of the model; \<open>'zk\<close> is the state of the coordination store.
\<close>

record ('b, 'zk) swap_env =
  should_be_cancelled :: "string list \<Rightarrow> bool"
  load_partition_assignment :: "'zk \<Rightarrow> error + 'b partition_assignment"
  reallocate_partitions :: "'b partition_assignment \<Rightarrow> 'zk \<Rightarrow> (error + bool) \<times> 'zk"

text \<open>\<^verbatim>\<open>__perform_swap\<close>: \<^verbatim>\<open>return self.zk.reallocate_partitions(swap_json)\<close>.\<close>

definition perform_swap ::
  "('b, 'zk) swap_env \<Rightarrow> 'b partition_assignment \<Rightarrow> 'zk \<Rightarrow> (error + bool) \<times> 'zk" where
  "perform_swap env swap_json zk = reallocate_partitions env swap_json zk"

text \<open>The truth value of \<^verbatim>\<open>self.to_move\<close>: \<^verbatim>\<open>None\<close> and the empty list are false.\<close>

definition truthy_plan :: "'b partition_assignment option \<Rightarrow> bool" where
  "truthy_plan m = (case m of None \<Rightarrow> False | Some plan \<Rightarrow> plan \<noteq> [])"

text \<open>
  \<^verbatim>\<open>return not self.__perform_swap(plan)\<close>, with the exception passed on.
\<close>

definition not_result :: "(error + bool) \<Rightarrow> (error + bool)" where
  "not_result r = (case r of Inl e \<Rightarrow> Inl e | Inr b \<Rightarrow> Inr (\<not> b))"

text \<open>
  \<^verbatim>\<open>run\<close> returns its result (or the exception), the change with its field \<^verbatim>\<open>to_move\<close>
  as the call leaves it, and the state of the store. The log messages are not modelled.
  A \<^verbatim>\<open>TpData\<close> is a 4-tuple, which is true as a condition, so
  \<^verbatim>\<open>if not slim_broker_smallest_partition\<close> never holds and
  \<^verbatim>\<open>if not matching_swap_partition\<close> holds exactly for \<^verbatim>\<open>None\<close>.
\<close>

definition run ::
  "('b, 'zk) swap_env \<Rightarrow> 'b SwapPartitionsChange \<Rightarrow> string list \<Rightarrow> 'zk \<Rightarrow>
   (error + bool) \<times> 'b SwapPartitionsChange \<times> 'zk" where
  "run env self current_actions zk =
     (if should_be_cancelled env current_actions then (Inr False, self, zk)
      else if truthy_plan (to_move self) then
        (case perform_swap env (the (to_move self)) zk of
           (r, zk') \<Rightarrow> (not_result r, self, zk'))
      else
        (case load_partition_assignment env zk of
           Inl e \<Rightarrow> (Inl e, self, zk)
         | Inr partition_assignment \<Rightarrow>
             let swap_partition_candidates =
                   find_all_swap_candidates partition_assignment (fat_broker_id self)
                     (slim_broker_id self) (merge_topics_stats (size_stats self))
             in
             (case swap_partition_candidates (slim_broker_id self) of
                None \<Rightarrow> (Inl KeyError, self, zk)
              | Some slim_candidates \<Rightarrow>
                  (case min_by_size slim_candidates of
                     Inl e \<Rightarrow> (Inl e, self, zk)
                   | Inr slim_broker_smallest_partition \<Rightarrow>
                       (case swap_partition_candidates (fat_broker_id self) of
                          None \<Rightarrow> (Inl KeyError, self, zk)
                        | Some fat_broker_swap_candidates \<Rightarrow>
                            (case find_best_swap_candidate fat_broker_swap_candidates (gap self)
                                    (size_kb slim_broker_smallest_partition) of
                               None \<Rightarrow> (Inr False, self, zk)
                             | Some matching_swap_partition \<Rightarrow>
                                 let plan = create_swap_partitions_json
                                              slim_broker_smallest_partition (slim_broker_id self)
                                              matching_swap_partition (fat_broker_id self);
                                     self' = self\<lparr>to_move := Some plan\<rparr>
                                 in
                                 (case perform_swap env plan zk of
                                    (scheduled_rebalance, zk') \<Rightarrow>
                                      (not_result scheduled_rebalance, self', zk'))))))))"

subsection \<open>Predicates used to state the properties of the candidates\<close>

text \<open>
  A \<^verbatim>\<open>TpData\<close> is in the candidate list that the dict holds for a broker id; the broker
  has no list when the key is missing.
\<close>

definition in_candidates :: "('b \<rightharpoonup> 'b TpData list) \<Rightarrow> 'b \<Rightarrow> 'b TpData \<Rightarrow> bool" where
  "in_candidates cands b tp = (case cands b of None \<Rightarrow> False | Some l \<Rightarrow> tp \<in> set l)"

text \<open>The size that \<^verbatim>\<open>topics_stats[topic][partition]\<close> holds, if both keys are there.\<close>

definition known_size :: "topics_stats \<Rightarrow> string \<Rightarrow> int \<Rightarrow> int option" where
  "known_size ts t p = (case ts t of None \<Rightarrow> None | Some sizes \<Rightarrow> sizes p)"

subsection \<open>Concrete inputs of the partition swap\<close>

text \<open>
  The fat broker is \<open>''1''\<close>, the slim broker \<open>''2''\<close>. The first list is the selection
  among sizes 40, 60 and 55 for a slim partition of size 10 and a gap of 100; the second has
  only partitions of the size of the slim one.
\<close>

definition ex_u0 :: "string TpData" where
  "ex_u0 = \<lparr>topic = ''U'', partition = 0, size_kb = 60, replicas = [''1'']\<rparr>"

definition ex_fat_candidates :: "string TpData list" where
  "ex_fat_candidates =
     [\<lparr>topic = ''U'', partition = 2, size_kb = 40, replicas = [''1'']\<rparr>,
      ex_u0,
      \<lparr>topic = ''U'', partition = 1, size_kb = 55, replicas = [''1'']\<rparr>]"

definition ex_even_candidates :: "string TpData list" where
  "ex_even_candidates =
     [\<lparr>topic = ''U'', partition = 0, size_kb = 50, replicas = [''1'']\<rparr>,
      \<lparr>topic = ''U'', partition = 1, size_kb = 50, replicas = [''1'']\<rparr>]"

definition ex_slim_smallest :: "string TpData" where
  "ex_slim_smallest = \<lparr>topic = ''T'', partition = 0, size_kb = 50, replicas = [''2'']\<rparr>"

definition ex_assignment :: "string partition_assignment" where
  "ex_assignment = [(''T'', 0, [''2'']), (''U'', 0, [''1'']), (''U'', 1, [''1''])]"

definition ex_env :: "(string, unit) swap_env" where
  "ex_env =
     \<lparr>should_be_cancelled = (\<lambda>_. False),
      load_partition_assignment = (\<lambda>_. Inr ex_assignment),
      reallocate_partitions = (\<lambda>plan zk. (Inr True, zk))\<rparr>"

definition ex_self :: "string SwapPartitionsChange" where
  "ex_self =
     \<lparr>fat_broker_id = ''1'', slim_broker_id = ''2'', gap = 100,
      size_stats =
        [(''1'', \<lparr>free_kb = 0, used_kb = 100, topics = [(''U'', [(0, 50), (1, 50)])]\<rparr>),
         (''2'', \<lparr>free_kb = 100, used_kb = 0, topics = [(''T'', [(0, 50)])]\<rparr>)],
      to_move = None\<rparr>"

text \<open>
  An assignment with one partition on the fat broker only, one on both brokers and one
  whose size is not known; one in which the fat broker holds no partition at all; and one
  in which the slim broker holds none.
\<close>

definition ex_mixed_assignment :: "string partition_assignment" where
  "ex_mixed_assignment =
     [(''U'', 0, [''1'']), (''V'', 0, [''1'', ''2'']), (''W'', 0, [''2''])]"

definition ex_topics_stats :: topics_stats where
  "ex_topics_stats = [''U'' \<mapsto> [0 \<mapsto> 50], ''V'' \<mapsto> [0 \<mapsto> 7]]"

definition ex_env_no_fat :: "(string, unit) swap_env" where
  "ex_env_no_fat =
     \<lparr>should_be_cancelled = (\<lambda>_. False),
      load_partition_assignment = (\<lambda>_. Inr [(''T'', 0, [''2''])]),
      reallocate_partitions = (\<lambda>plan zk. (Inr True, zk))\<rparr>"

definition ex_env_no_slim :: "(string, unit) swap_env" where
  "ex_env_no_slim =
     \<lparr>should_be_cancelled = (\<lambda>_. False),
      load_partition_assignment = (\<lambda>_. Inr [(''U'', 0, [''1'']), (''U'', 1, [''1''])]),
      reallocate_partitions = (\<lambda>plan zk. (Inr True, zk))\<rparr>"


section \<open>bubuku/broker.py\<close>

subsection \<open>Strings of numbers\<close>

text \<open>\<^verbatim>\<open>str(n)\<close> for an integer: its decimal digits, with a minus sign when negative.\<close>

fun str_nat :: "nat \<Rightarrow> string" where
  "str_nat n =
     (if n < 10 then [''0123456789'' ! n]
      else str_nat (n div 10) @ [''0123456789'' ! (n mod 10)])"

declare str_nat.simps [simp del]

definition str_int :: "int \<Rightarrow> string" where
  "str_int i = (if i < 0 then CHR ''-'' # str_nat (nat (- i)) else str_nat (nat i))"

text \<open>
  \<^verbatim>\<open>str(self.id_manager.get_broker_id())\<close>: the id manager returns a string or \<^verbatim>\<open>None\<close>,
  and \<^verbatim>\<open>str(None)\<close> is the string \<^verbatim>\<open>'None'\<close>.
\<close>

definition str_broker_id :: "string option \<Rightarrow> string" where
  "str_broker_id v = (case v of None \<Rightarrow> ''None'' | Some s \<Rightarrow> s)"

subsection \<open>The partition states in the coordination store\<close>

text \<open>
  The node \<^verbatim>\<open>/brokers/topics/<topic>/partitions/<p>/state\<close> holds the JSON document
  \<^verbatim>\<open>{"leader": int, "isr": [int, ...], ...}\<close>. The scan reads the subtree under
  \<^verbatim>\<open>/brokers/topics\<close>: for every topic the children of its \<^verbatim>\<open>partitions\<close> node, each
  with the state it holds, or \<open>None\<close> when it has no \<^verbatim>\<open>state\<close> node.
\<close>

record partition_state =
  leader :: int
  isr :: "int list"

type_synonym brokers_topics = "(string \<times> (string \<times> partition_state option) list) list"

text \<open>
  \<^verbatim>\<open>exhibitor.get_children\<close> returns the names of the children, and the empty list for a
  node that does not exist; \<^verbatim>\<open>exhibitor.get\<close> raises \<^verbatim>\<open>NoNodeError\<close> for such a node.
\<close>

definition get_children_topics :: "brokers_topics \<Rightarrow> string list" where
  "get_children_topics zk = map fst zk"

definition get_children_partitions :: "brokers_topics \<Rightarrow> string \<Rightarrow> string list" where
  "get_children_partitions zk t = (case map_of zk t of None \<Rightarrow> [] | Some ps \<Rightarrow> map fst ps)"

definition get_state :: "brokers_topics \<Rightarrow> string \<Rightarrow> string \<Rightarrow> error + partition_state" where
  "get_state zk t p =
     (case map_of zk t of
        None \<Rightarrow> Inl NoNodeError
      | Some ps \<Rightarrow>
          (case map_of ps p of
             None \<Rightarrow> Inl NoNodeError
           | Some None \<Rightarrow> Inl NoNodeError
           | Some (Some state) \<Rightarrow> Inr state))"

text \<open>Every call of the store is recorded, with the path it reads.\<close>

datatype access = GetChildren string | Get string

subsection \<open>BrokerManager\<close>

text \<open>
  \<^verbatim>\<open>self.process\<close> is the handle of the Kafka process or \<^verbatim>\<open>None\<close>;
  \<^verbatim>\<open>self.kafka_properties.get_property\<close> is a lookup that gives \<^verbatim>\<open>None\<close> for a property
  that is not set; \<open>broker_id\<close> is what \<^verbatim>\<open>self.id_manager.get_broker_id()\<close> returns.
\<close>

record 'p BrokerManager =
  process :: "'p option"
  kafka_properties :: "string \<rightharpoonup> string"
  broker_id :: "string option"

text \<open>
  \<^verbatim>\<open>
  value = self.kafka_properties.get_property('unclean.leader.election.enable')
  if value is None or value == 'true':
      return False
  return True
  \<close>
\<close>

definition is_clean_election :: "'p BrokerManager \<Rightarrow> bool" where
  "is_clean_election self =
     (case kafka_properties self ''unclean.leader.election.enable'' of
        None \<Rightarrow> False
      | Some v \<Rightarrow> if v = ''true'' then False else True)"

text \<open>
  The inner loop of \<^verbatim>\<open>_have_leadership\<close> over the partitions of one topic. \<open>Inr True\<close>
  is the \<^verbatim>\<open>return True\<close> of the loop body, \<open>Inr False\<close> the end of the loop, \<open>Inl\<close> an
  exception; the list is the accesses to the store so far.
\<close>

fun scan_partitions ::
  "brokers_topics \<Rightarrow> string \<Rightarrow> string \<Rightarrow> string list \<Rightarrow> access list \<Rightarrow>
   (error + bool) \<times> access list" where
  "scan_partitions zk b t [] acc = (Inr False, acc)"
| "scan_partitions zk b t (p # ps) acc =
     (case get_state zk t p of
        Inl e \<Rightarrow>
          (Inl e, acc @ [Get (''/brokers/topics/'' @ t @ ''/partitions/'' @ p @ ''/state'')])
      | Inr state \<Rightarrow>
          if str_int (leader state) = b
          then (Inr True,
                acc @ [Get (''/brokers/topics/'' @ t @ ''/partitions/'' @ p @ ''/state'')])
          else if list_ex (\<lambda>x. str_int x = b) (isr state)
          then (Inr True,
                acc @ [Get (''/brokers/topics/'' @ t @ ''/partitions/'' @ p @ ''/state'')])
          else scan_partitions zk b t ps
                 (acc @ [Get (''/brokers/topics/'' @ t @ ''/partitions/'' @ p @ ''/state'')]))"

text \<open>The outer loop, over the topics.\<close>

fun scan_topics ::
  "brokers_topics \<Rightarrow> string \<Rightarrow> string list \<Rightarrow> access list \<Rightarrow> (error + bool) \<times> access list"
  where
  "scan_topics zk b [] acc = (Inr False, acc)"
| "scan_topics zk b (t # ts) acc =
     (case scan_partitions zk b t (get_children_partitions zk t)
             (acc @ [GetChildren (''/brokers/topics/'' @ t @ ''/partitions'')]) of
        (Inr False, acc') \<Rightarrow> scan_topics zk b ts acc'
      | (r, acc') \<Rightarrow> (r, acc'))"

text \<open>
  \<^verbatim>\<open>
  if not self._is_clean_election():
      return False
  broker_id = str(self.id_manager.get_broker_id())
  if not broker_id:
      return False
  for topic in self.exhibitor.get_children('/brokers/topics'): ...
  return False
  \<close>
\<close>

definition have_leadership ::
  "'p BrokerManager \<Rightarrow> brokers_topics \<Rightarrow> (error + bool) \<times> access list" where
  "have_leadership self zk =
     (if \<not> is_clean_election self then (Inr False, [])
      else if str_broker_id (broker_id self) = [] then (Inr False, [])
      else scan_topics zk (str_broker_id (broker_id self)) (get_children_topics zk)
             [GetChildren ''/brokers/topics''])"

text \<open>
  \<^verbatim>\<open>_terminate_process\<close> catches and logs what \<^verbatim>\<open>terminate\<close> and \<^verbatim>\<open>wait\<close> raise, and its
  \<^verbatim>\<open>finally\<close> clears the handle in every case. \<^verbatim>\<open>_wait_for_zk_absence\<close> catches and logs
  every exception too, and changes nothing of the manager.
\<close>

definition terminate_process :: "'p BrokerManager \<Rightarrow> 'p BrokerManager" where
  "terminate_process self = self\<lparr>process := None\<rparr>"

definition wait_for_zk_absence :: "'p BrokerManager \<Rightarrow> 'p BrokerManager" where
  "wait_for_zk_absence self = self"

text \<open>
  \<^verbatim>\<open>
  self._terminate_process()
  self._wait_for_zk_absence()
  return not self._have_leadership()
  \<close>
  The result comes with the manager after the call and the accesses to the store.
\<close>

definition stop_kafka_process ::
  "'p BrokerManager \<Rightarrow> brokers_topics \<Rightarrow> (error + bool) \<times> 'p BrokerManager \<times> access list"
  where
  "stop_kafka_process self zk =
     (case have_leadership (wait_for_zk_absence (terminate_process self)) zk of
        (r, acc) \<Rightarrow> (not_result r, wait_for_zk_absence (terminate_process self), acc))"

subsection \<open>Concrete brokers\<close>

text \<open>
  A store with one partition, led by broker 5 and with brokers 5 and 6 in sync; and managers
  whose property \<^verbatim>\<open>unclean.leader.election.enable\<close> is \<^verbatim>\<open>"yes"\<close> or \<^verbatim>\<open>"false"\<close>.
\<close>

definition ex_topics :: brokers_topics where
  "ex_topics = [(''T'', [(''0'', Some \<lparr>leader = 5, isr = [5, 6]\<rparr>)])]"

definition ex_manager :: "string \<Rightarrow> string option \<Rightarrow> unit BrokerManager" where
  "ex_manager v b =
     \<lparr>process = Some (),
      kafka_properties = [''unclean.leader.election.enable'' \<mapsto> v],
      broker_id = b\<rparr>"

section \<open>bubuku/zookeeper.py\<close>

subsection \<open>JSON documents and the data of a node\<close>

text \<open>
  The values that \<^verbatim>\<open>json.dumps\<close> takes here: dicts with string keys (in the order of the
  dict literal), lists, strings, integers, booleans and \<^verbatim>\<open>None\<close>.
\<close>

datatype json =
    JNull
  | JBool bool
  | JInt int
  | JStr string
  | JArr "json list"
  | JObj "(string \<times> json) list"

text \<open>
  The bytes that a node holds. The serialisation itself is the library's:
  \<open>Json_bytes j\<close> stands for \<^verbatim>\<open>json.dumps(j).encode('utf-8')\<close> and \<open>Str_bytes s\<close> for
  \<^verbatim>\<open>s.encode('utf-8')\<close>.
\<close>

datatype znode_data = Json_bytes json | Str_bytes string

text \<open>
  The nodes of the coordination store, by path. \<^verbatim>\<open>exhibitor.create(path, data)\<close> raises
  \<^verbatim>\<open>NodeExistsError\<close> when the path has a node, and creates the node otherwise. Failures
  of the store that the code does not tell apart (a lost connection, a missing parent
  node) are outside this model.
\<close>

type_synonym zk_nodes = "string \<rightharpoonup> znode_data"

definition exhibitor_create :: "zk_nodes \<Rightarrow> string \<Rightarrow> znode_data \<Rightarrow> error + zk_nodes" where
  "exhibitor_create zk path data =
     (case zk path of Some old \<Rightarrow> Inl NodeExistsError | None \<Rightarrow> Inr (zk(path \<mapsto> data)))"

subsection \<open>The conversion int()\<close>

text \<open>
  The partition ``can be str or int'', and so can a replica. \<^verbatim>\<open>int(x)\<close> is \<open>x\<close> for an
  integer. For a string it is the value of a decimal literal, an optional sign and digits,
  with blanks around it removed, and \<^verbatim>\<open>ValueError\<close> for any other string (the underscores
  that later versions of Python accept between digits are not modelled).
\<close>

datatype pyobj = PyInt int | PyStr string

definition is_space :: "char \<Rightarrow> bool" where
  "is_space c = (c \<in> set [CHR '' '', CHR 0x09, CHR 0x0A, CHR 0x0B, CHR 0x0C, CHR 0x0D])"

definition strip :: "string \<Rightarrow> string" where
  "strip s = rev (dropWhile is_space (rev (dropWhile is_space s)))"

definition digit_val :: "char \<Rightarrow> nat option" where
  "digit_val c =
     (if 48 \<le> (of_char c :: nat) \<and> (of_char c :: nat) \<le> 57
      then Some (of_char c - 48) else None)"

fun parse_digits :: "string \<Rightarrow> nat \<Rightarrow> nat option" where
  "parse_digits [] acc = Some acc"
| "parse_digits (c # cs) acc =
     (case digit_val c of None \<Rightarrow> None | Some d \<Rightarrow> parse_digits cs (10 * acc + d))"

definition parse_int :: "string \<Rightarrow> int option" where
  "parse_int s =
     (case strip s of
        [] \<Rightarrow> None
      | c # cs \<Rightarrow>
          if c = CHR ''-'' then
            (if cs = [] then None else map_option (\<lambda>n. - int n) (parse_digits cs 0))
          else if c = CHR ''+'' then
            (if cs = [] then None else map_option int (parse_digits cs 0))
          else map_option int (parse_digits (c # cs) 0))"

definition py_int :: "pyobj \<Rightarrow> error + int" where
  "py_int x =
     (case x of
        PyInt i \<Rightarrow> Inr i
      | PyStr s \<Rightarrow> (case parse_int s of None \<Rightarrow> Inl ValueError | Some i \<Rightarrow> Inr i))"

text \<open>\<^verbatim>\<open>[int(p) for p in replicas]\<close>: the first conversion that fails raises.\<close>

fun py_int_list :: "pyobj list \<Rightarrow> error + int list" where
  "py_int_list [] = Inr []"
| "py_int_list (p # ps) =
     (case py_int p of
        Inl e \<Rightarrow> Inl e
      | Inr i \<Rightarrow> (case py_int_list ps of Inl e \<Rightarrow> Inl e | Inr is \<Rightarrow> Inr (i # is)))"

subsection \<open>BukuExhibitor.reallocate\_partition\<close>

text \<open>
  \<^verbatim>\<open>
  j = {"version": "1",
       "partitions": [{"topic": topic,
                       "partition": int(partition),
                       "replicas": [int(p) for p in replicas]}]}
  \<close>
\<close>

definition reassignment_json :: "string \<Rightarrow> int \<Rightarrow> int list \<Rightarrow> json" where
  "reassignment_json topic' p rs =
     JObj [(''version'', JStr ''1''),
           (''partitions'',
            JArr [JObj [(''topic'', JStr topic'),
                        (''partition'', JInt p),
                        (''replicas'', JArr (map JInt rs))]])]"

text \<open>
  \<^verbatim>\<open>
  try:
      data = json.dumps(j)
      self.exhibitor.create("/admin/reassign_partitions", data.encode('utf-8'))
      return True
  except NodeExistsError:
      ...
  return False
  \<close>
  The conversions come first, in the dict literal; what they raise is passed on, and so is
  every exception of \<^verbatim>\<open>create\<close> but \<^verbatim>\<open>NodeExistsError\<close>. The parameters are primed, since
  \<open>topic\<close>, \<open>partition\<close> and \<open>replicas\<close> are the fields of \<^verbatim>\<open>TpData\<close>.
\<close>

definition reallocate_partition ::
  "zk_nodes \<Rightarrow> string \<Rightarrow> pyobj \<Rightarrow> pyobj list \<Rightarrow> (error + bool) \<times> zk_nodes" where
  "reallocate_partition zk topic' partition' replicas' =
     (case py_int partition' of
        Inl e \<Rightarrow> (Inl e, zk)
      | Inr p \<Rightarrow>
          (case py_int_list replicas' of
             Inl e \<Rightarrow> (Inl e, zk)
           | Inr rs \<Rightarrow>
               (case exhibitor_create zk ''/admin/reassign_partitions''
                       (Json_bytes (reassignment_json topic' p rs)) of
                  Inr zk' \<Rightarrow> (Inr True, zk')
                | Inl NodeExistsError \<Rightarrow> (Inr False, zk)
                | Inl e \<Rightarrow> (Inl e, zk))))"

subsection \<open>The methods of BukuExhibitor\<close>

text \<open>
  Python looks up \<^verbatim>\<open>zk.name\<close> when the call is made, among the attributes of the object:
  for a \<^verbatim>\<open>BukuExhibitor\<close>, the field that \<^verbatim>\<open>__init__\<close> sets and the methods of the class
  (its base class is \<^verbatim>\<open>object\<close>, which adds names with two underscores only). A name that
  is not among them raises \<^verbatim>\<open>AttributeError\<close>.
\<close>

definition BukuExhibitor_attributes :: "string list" where
  "BukuExhibitor_attributes =
     [''exhibitor'', ''__init__'', ''is_broker_registered'', ''get_broker_ids'',
      ''load_partition_assignment'', ''load_partition_states'', ''reallocate_partition'',
      ''update_disk_stats'', ''get_conn_str'', ''is_rebalancing'', ''lock'',
      ''get_running_changes'', ''register_change'', ''unregister_change'']"

text \<open>
  The call \<^verbatim>\<open>obj.name(args)\<close> on an object with these attributes, where \<open>body\<close> is what
  the method does when the object has it.
\<close>

definition bound_method ::
  "string list \<Rightarrow> string \<Rightarrow> ('a \<Rightarrow> 'zk \<Rightarrow> (error + 'r) \<times> 'zk) \<Rightarrow>
   'a \<Rightarrow> 'zk \<Rightarrow> (error + 'r) \<times> 'zk" where
  "bound_method attributes name body args zk =
     (if name \<in> set attributes then body args zk else (Inl AttributeError, zk))"

text \<open>
  What a \<^verbatim>\<open>SwapPartitionsChange\<close> finds when its \<^verbatim>\<open>zk\<close> is a \<^verbatim>\<open>BukuExhibitor\<close>, as its
  constructor declares.
\<close>

definition BukuExhibitor_env ::
  "(string list \<Rightarrow> bool) \<Rightarrow> ('zk \<Rightarrow> error + 'b partition_assignment) \<Rightarrow>
   ('b partition_assignment \<Rightarrow> 'zk \<Rightarrow> (error + bool) \<times> 'zk) \<Rightarrow> ('b, 'zk) swap_env" where
  "BukuExhibitor_env cancelled load body =
     \<lparr>should_be_cancelled = cancelled,
      load_partition_assignment = load,
      reallocate_partitions =
        bound_method BukuExhibitor_attributes ''reallocate_partitions'' body\<rparr>"

subsection \<open>A concrete reassignment\<close>

definition ex_plan_json :: json where
  "ex_plan_json =
     JObj [(''version'', JStr ''1''),
           (''partitions'',
            JArr [JObj [(''topic'', JStr ''T''),
                        (''partition'', JInt 3),
                        (''replicas'', JArr [JInt 2, JInt 7])]])]"

definition ex_swap_plan :: "int partition_assignment" where
  "ex_swap_plan = [(''T'', 0, [2]), (''U'', 0, [1])]"

section \<open>bubuku/controller.py\<close>

subsection \<open>Floating-point numbers\<close>

text \<open>
  \<^verbatim>\<open>time()\<close> returns a Python float, a double of IEEE 754, and the arithmetic on the
  timestamp and the interval of a check is the arithmetic of doubles: each operation gives
  the double nearest to the exact result, the one with the even last digit when two are
  equally near. A double is taken as the real number it denotes (and a Python int below
  \<open>2 ^ 53\<close> as the double of the same value, on which the arithmetic agrees).

  \<open>round_even y\<close> is the integer nearest to \<open>y\<close>, the even one of two. \<open>to_double x\<close>
  is the double nearest to \<open>x\<close>: a double has 53 significant binary digits, so \<open>x\<close> is
  rounded to a multiple of \<open>2\<close> to the power \<open>\<lfloor>log 2 \<bar>x\<bar>\<rfloor> - 52\<close>. The overflow to infinity,
  the numbers below the least normal double and NaN are outside the model.
\<close>

definition round_even :: "real \<Rightarrow> int" where
  "round_even y =
     (if y - of_int \<lfloor>y\<rfloor> < 1 / 2 then \<lfloor>y\<rfloor>
      else if 1 / 2 < y - of_int \<lfloor>y\<rfloor> then \<lfloor>y\<rfloor> + 1
      else if even \<lfloor>y\<rfloor> then \<lfloor>y\<rfloor> else \<lfloor>y\<rfloor> + 1)"

definition to_double :: "real \<Rightarrow> real" where
  "to_double x =
     (if x = 0 then 0
      else of_int (round_even (x / 2 powr of_int (\<lfloor>log 2 \<bar>x\<bar>\<rfloor> - 52))) *
           2 powr of_int (\<lfloor>log 2 \<bar>x\<bar>\<rfloor> - 52))"

text \<open>\<^verbatim>\<open>a + b\<close> and \<^verbatim>\<open>a - b\<close> on floats.\<close>

definition float_add :: "real \<Rightarrow> real \<Rightarrow> real" where
  "float_add a b = to_double (a + b)"

definition float_sub :: "real \<Rightarrow> real \<Rightarrow> real" where
  "float_sub a b = to_double (a - b)"

subsection \<open>Changes and checks\<close>

text \<open>
  A \<^verbatim>\<open>Change\<close> is an object with the methods \<^verbatim>\<open>get_name\<close>, \<^verbatim>\<open>can_run\<close>, \<^verbatim>\<open>run\<close>,
  \<^verbatim>\<open>can_run_at_exit\<close> and \<^verbatim>\<open>on_remove\<close>. \<^verbatim>\<open>run\<close> acts on the world outside the controller
  (of type \<open>'w\<close>), returns a truth value or raises, and may change the object: it returns
  the object as the call leaves it, which makes the type of changes a codatatype: a change
  is what its methods do, now and after every call. The method is named \<open>change_run\<close>,
  since \<open>run\<close> is the method of \<^verbatim>\<open>SwapPartitionsChange\<close> above.
\<close>

codatatype 'w change =
  Change
    (get_name: string)
    (can_run: "string list \<Rightarrow> bool")
    (change_run: "string list \<Rightarrow> 'w \<Rightarrow> (error + bool) \<times> 'w change \<times> 'w")
    (can_run_at_exit: bool)
    (on_remove: "'w \<Rightarrow> 'w")

text \<open>
  What the controller does that the properties are about: taking and releasing the global
  lock, writing the registry of changes, calling \<^verbatim>\<open>run\<close> and \<^verbatim>\<open>on_remove\<close> of the change
  queued under a name, and calling \<^verbatim>\<open>check\<close>. \<open>CheckInvoked prev t now\<close> records the
  timestamp before the call, the clock as \<^verbatim>\<open>time_till_check\<close> has read it for the test,
  and the new timestamp. The events are recorded
  by the controller and by \<^verbatim>\<open>check_if_time\<close>: in controller.py the lock and the registry
  are used by the controller only, and the world \<open>'w\<close> of the changes and the checks
  holds none of them.
\<close>

datatype event =
    LockTaken "string option"
  | LockReleased
  | ChangeRegistered string string
  | ChangeUnregistered string
  | RunCalled string
  | OnRemoveCalled string
  | CheckInvoked real real real
  | CheckReturned

text \<open>
  A \<^verbatim>\<open>Check\<close>: its interval, its private timestamp (0 at first), and the method \<^verbatim>\<open>check\<close>
  of the subclass, which returns a change or \<^verbatim>\<open>None\<close>, or raises. \<^verbatim>\<open>time()\<close> reads the
  clock of the world; between two readings the world is another one.
\<close>

record 'w Check =
  check_interval_s :: real
  last_check_timestamp_s :: real
  check :: "'w \<Rightarrow> (error + 'w change option) \<times> 'w"

text \<open>
  \<^verbatim>\<open>return self.__last_check_timestamp_s + self.check_interval_s - time()\<close>: the sum is
  rounded, and then the difference.
\<close>

definition time_till_check :: "('w \<Rightarrow> real \<times> 'w) \<Rightarrow> 'w Check \<Rightarrow> 'w \<Rightarrow> real \<times> 'w" where
  "time_till_check time self w =
     (case time w of
        (now, w') \<Rightarrow>
          (float_sub (float_add (last_check_timestamp_s self) (check_interval_s self)) now,
           w'))"

text \<open>
  \<^verbatim>\<open>
  if self.time_till_check() <= 0:
      self.__last_check_timestamp_s = time()
      return self.check()
  return None
  \<close>
\<close>

definition check_if_time ::
  "('w \<Rightarrow> real \<times> 'w) \<Rightarrow> 'w Check \<Rightarrow> event list \<Rightarrow> 'w \<Rightarrow>
   (error + 'w change option) \<times> 'w Check \<times> event list \<times> 'w" where
  "check_if_time time self evs w =
     (case time_till_check time self w of
        (till, w1) \<Rightarrow>
          if till \<le> 0 then
            (case time w1 of
               (now, w2) \<Rightarrow>
                 (case check self w2 of
                    (r, w3) \<Rightarrow>
                      (r, self\<lparr>last_check_timestamp_s := now\<rparr>,
                       evs @ [CheckInvoked (last_check_timestamp_s self) (fst (time w)) now,
                              CheckReturned],
                       w3)))
          else (Inr None, self, evs, w1))"


subsection \<open>The state of the controller\<close>

text \<open>
  \<^verbatim>\<open>self.checks\<close>, \<^verbatim>\<open>self.changes\<close> (a dict from the name to the list of pending changes,
  in the order of insertion) and \<^verbatim>\<open>self.running\<close>; the children of \<^verbatim>\<open>/bubuku/changes\<close> in
  the store with the provider id each holds; the events so far; and the world.
\<close>

record 'w Controller =
  checks :: "'w Check list"
  changes :: "(string \<times> 'w change list) list"
  running :: bool
  zk_changes :: "(string \<times> string) list"
  events :: "event list"
  world :: 'w

text \<open>
  \<^verbatim>\<open>[k for k, v in running_actions.items() if k != name or v != provider_id]\<close>
\<close>

definition exclude_self :: "string \<Rightarrow> string \<Rightarrow> (string \<times> string) list \<Rightarrow> string list" where
  "exclude_self provider_id name running_actions =
     map fst (filter (\<lambda>(k, v). k \<noteq> name \<or> v \<noteq> provider_id) running_actions)"

text \<open>
  The store as the controller uses it. \<^verbatim>\<open>with self.zk.lock(data)\<close> takes the lock and
  releases it when the block is left, also by an exception. \<^verbatim>\<open>register_change\<close> creates
  the node of the name and raises \<^verbatim>\<open>NodeExistsError\<close> when it exists;
  \<^verbatim>\<open>unregister_change\<close> deletes it recursively, which is no error when it is gone.
\<close>

definition lock :: "string option \<Rightarrow> 'w Controller \<Rightarrow> 'w Controller" where
  "lock lock_data st = st\<lparr>events := events st @ [LockTaken lock_data]\<rparr>"

definition unlock :: "'w Controller \<Rightarrow> 'w Controller" where
  "unlock st = st\<lparr>events := events st @ [LockReleased]\<rparr>"

definition get_running_changes :: "'w Controller \<Rightarrow> (string \<times> string) list" where
  "get_running_changes st = zk_changes st"

definition register_change :: "string \<Rightarrow> string \<Rightarrow> 'w Controller \<Rightarrow> error + 'w Controller" where
  "register_change name ip st =
     (case map_of (zk_changes st) name of
        Some owner \<Rightarrow> Inl NodeExistsError
      | None \<Rightarrow>
          Inr (st\<lparr>zk_changes := zk_changes st @ [(name, ip)],
                  events := events st @ [ChangeRegistered name ip]\<rparr>))"

definition unregister_change :: "string \<Rightarrow> 'w Controller \<Rightarrow> 'w Controller" where
  "unregister_change name st =
     st\<lparr>zk_changes := filter (\<lambda>(k, v). k \<noteq> name) (zk_changes st),
        events := events st @ [ChangeUnregistered name]\<rparr>"

subsection \<open>Registering the changes\<close>

text \<open>
  The loop \<^verbatim>\<open>for name, change_list in self.changes.items()\<close> of
  \<^verbatim>\<open>_register_running_changes\<close>; \<^verbatim>\<open>change_list[0]\<close> raises \<^verbatim>\<open>IndexError\<close> on an empty list.
\<close>

fun register_loop ::
  "(string \<times> 'w change list) list \<Rightarrow> string \<Rightarrow> (string \<times> string) list \<Rightarrow> 'w Controller \<Rightarrow>
   (error + (string \<times> string) list) \<times> 'w Controller" where
  "register_loop [] provider_id running_changes st = (Inr running_changes, st)"
| "register_loop ((name, change_list) # rest) provider_id running_changes st =
     (case change_list of
        [] \<Rightarrow> (Inl IndexError, st)
      | first_change # queue \<Rightarrow>
          if can_run first_change (exclude_self provider_id name running_changes) then
            (case map_of running_changes name of
               None \<Rightarrow>
                 (case register_change name provider_id st of
                    Inl e \<Rightarrow> (Inl e, st)
                  | Inr st' \<Rightarrow>
                      register_loop rest provider_id
                        (running_changes @ [(name, provider_id)]) st')
             | Some owner \<Rightarrow> register_loop rest provider_id running_changes st)
          else register_loop rest provider_id running_changes st)"

text \<open>
  \<^verbatim>\<open>
  if not self.changes:
      return {}  # Do not take lock if there are no changes to register
  with self.zk.lock(provider_id):
      running_changes = self.zk.get_running_changes()
      for name, change_list in self.changes.items(): ...
      return running_changes
  \<close>
\<close>

definition register_running_changes ::
  "'w Controller \<Rightarrow> string \<Rightarrow> (error + (string \<times> string) list) \<times> 'w Controller" where
  "register_running_changes st provider_id =
     (if changes st = [] then (Inr [], st)
      else
        (case register_loop (changes st) provider_id
                (get_running_changes (lock (Some provider_id) st))
                (lock (Some provider_id) st) of
           (r, st') \<Rightarrow> (r, unlock st')))"

subsection \<open>Running the changes\<close>

text \<open>
  The loop of \<^verbatim>\<open>_run_changes\<close> over the items of \<^verbatim>\<open>self.changes\<close>. It returns
  \<^verbatim>\<open>changes_to_remove\<close>, the items with the changes as \<^verbatim>\<open>run\<close> left them, the events and
  the world. An exception of \<^verbatim>\<open>run\<close> is caught; the name of the change is then appended as
  it is when \<^verbatim>\<open>run\<close> returns \<^verbatim>\<open>False\<close>.
\<close>

fun run_loop ::
  "(string \<times> 'w change list) list \<Rightarrow> (string \<times> string) list \<Rightarrow> string \<Rightarrow> bool \<Rightarrow>
   string list \<Rightarrow> event list \<Rightarrow> 'w \<Rightarrow>
   (error + string list) \<times> (string \<times> 'w change list) list \<times> event list \<times> 'w" where
  "run_loop [] running_changes provider_id is_running changes_to_remove evs w =
     (Inr changes_to_remove, [], evs, w)"
| "run_loop ((name, change_list) # rest) running_changes provider_id is_running
       changes_to_remove evs w =
     (if map_of running_changes name = Some provider_id then
        (case change_list of
           [] \<Rightarrow> (Inl IndexError, (name, change_list) # rest, evs, w)
         | c # queue \<Rightarrow>
             if is_running \<or> can_run_at_exit c then
               (case change_run c (exclude_self provider_id (get_name c) running_changes) w of
                  (r, c', w') \<Rightarrow>
                    (case run_loop rest running_changes provider_id is_running
                            (case r of
                               Inr True \<Rightarrow> changes_to_remove
                             | Inr False \<Rightarrow> changes_to_remove @ [get_name c']
                             | Inl e \<Rightarrow> changes_to_remove @ [get_name c'])
                            (evs @ [RunCalled name]) w' of
                       (res, rest', evs', w'') \<Rightarrow>
                         (res, (name, c' # queue) # rest', evs', w'')))
             else
               (case run_loop rest running_changes provider_id is_running
                       (changes_to_remove @ [get_name c]) evs w of
                  (res, rest', evs', w'') \<Rightarrow> (res, (name, change_list) # rest', evs', w'')))
      else
        (case run_loop rest running_changes provider_id is_running changes_to_remove evs w of
           (res, rest', evs', w'') \<Rightarrow> (res, (name, change_list) # rest', evs', w'')))"

definition run_changes ::
  "'w Controller \<Rightarrow> (string \<times> string) list \<Rightarrow> string \<Rightarrow> (error + string list) \<times> 'w Controller"
  where
  "run_changes st running_changes provider_id =
     (case run_loop (changes st) running_changes provider_id (running st) [] (events st)
             (world st) of
        (res, changes', evs, w) \<Rightarrow> (res, st\<lparr>changes := changes', events := evs, world := w\<rparr>))"

subsection \<open>Removing the processed changes\<close>

text \<open>
  \<^verbatim>\<open>
  for change_name in changes_to_remove:
      removed_change = self.changes[change_name][0]
      del self.changes[change_name][0]
      if not self.changes[change_name]:
          del self.changes[change_name]
      removed_change.on_remove()
  \<close>
\<close>

fun remove_loop :: "string list \<Rightarrow> 'w Controller \<Rightarrow> error option \<times> 'w Controller" where
  "remove_loop [] st = (None, st)"
| "remove_loop (change_name # rest) st =
     (case map_of (changes st) change_name of
        None \<Rightarrow> (Some KeyError, st)
      | Some [] \<Rightarrow> (Some IndexError, st)
      | Some (removed_change # queue) \<Rightarrow>
          remove_loop rest
            (st\<lparr>changes :=
                  (if queue = [] then AList.delete change_name (changes st)
                   else AList.update change_name queue (changes st)),
                events := events st @ [OnRemoveCalled change_name],
                world := on_remove removed_change (world st)\<rparr>))"

text \<open>
  \<^verbatim>\<open>
  if changes_to_remove:
      for change_name in changes_to_remove: ...
      with self.zk.lock():
          for name in changes_to_remove:
              self.zk.unregister_change(name)
  \<close>
\<close>

definition release_changes_lock ::
  "'w Controller \<Rightarrow> string list \<Rightarrow> error option \<times> 'w Controller" where
  "release_changes_lock st changes_to_remove =
     (if changes_to_remove = [] then (None, st)
      else
        (case remove_loop changes_to_remove st of
           (Some e, st') \<Rightarrow> (Some e, st')
         | (None, st') \<Rightarrow>
             (None, unlock (fold unregister_change changes_to_remove (lock None st')))))"

subsection \<open>The checks and a step\<close>

text \<open>
  \<^verbatim>\<open>
  if not change:
      return
  if change.get_name() not in self.changes:
      self.changes[change.get_name()] = []
  self.changes[change.get_name()].append(change)
  \<close>
\<close>

definition add_change_to_queue :: "'w change option \<Rightarrow> 'w Controller \<Rightarrow> 'w Controller" where
  "add_change_to_queue change st =
     (case change of
        None \<Rightarrow> st
      | Some c \<Rightarrow>
          st\<lparr>changes :=
               AList.update (get_name c)
                 ((case map_of (changes st) (get_name c) of None \<Rightarrow> [] | Some q \<Rightarrow> q) @ [c])
                 (changes st)\<rparr>)"

text \<open>
  \<^verbatim>\<open>for check in self.checks: self._add_change_to_queue(check.check_if_time())\<close>. The
  checks come back with their timestamps; an exception of a check ends the loop.
\<close>

fun probe_loop ::
  "('w \<Rightarrow> real \<times> 'w) \<Rightarrow> 'w Check list \<Rightarrow> 'w Controller \<Rightarrow>
   error option \<times> 'w Check list \<times> 'w Controller" where
  "probe_loop time [] st = (None, [], st)"
| "probe_loop time (ck # rest) st =
     (case check_if_time time ck (events st) (world st) of
        (r, ck', evs, w) \<Rightarrow>
          (case r of
             Inl e \<Rightarrow> (Some e, ck' # rest, st\<lparr>events := evs, world := w\<rparr>)
           | Inr change \<Rightarrow>
               (case probe_loop time rest
                       (add_change_to_queue change (st\<lparr>events := evs, world := w\<rparr>)) of
                  (res, rest', st') \<Rightarrow> (res, ck' # rest', st'))))"

text \<open>
  \<^verbatim>\<open>
  running_changes = self._register_running_changes(provider_id)
  changes_to_remove = self._run_changes(running_changes, provider_id)
  self._release_changes_lock(changes_to_remove)
  if self.running:
      for check in self.checks:
          self._add_change_to_queue(check.check_if_time())
  \<close>
  The result is the exception that ended the step, if any, and the state it leaves.
\<close>

definition make_step ::
  "('w \<Rightarrow> real \<times> 'w) \<Rightarrow> 'w Controller \<Rightarrow> string \<Rightarrow> error option \<times> 'w Controller" where
  "make_step time st provider_id =
     (case register_running_changes st provider_id of
        (Inl e, st1) \<Rightarrow> (Some e, st1)
      | (Inr running_changes, st1) \<Rightarrow>
          (case run_changes st1 running_changes provider_id of
             (Inl e, st2) \<Rightarrow> (Some e, st2)
           | (Inr changes_to_remove, st2) \<Rightarrow>
               (case release_changes_lock st2 changes_to_remove of
                  (Some e, st3) \<Rightarrow> (Some e, st3)
                | (None, st3) \<Rightarrow>
                    if running st3 then
                      (case probe_loop time (checks st3) st3 of
                         (res, cks, st4) \<Rightarrow> (res, st4\<lparr>checks := cks\<rparr>))
                    else (None, st3))))"

text \<open>\<^verbatim>\<open>stop\<close>: \<^verbatim>\<open>self._add_change_to_queue(change); self.running = False\<close>.\<close>

definition stop :: "'w Controller \<Rightarrow> 'w change option \<Rightarrow> 'w Controller" where
  "stop st change = (add_change_to_queue change st)\<lparr>running := False\<rparr>"

subsection \<open>Predicates on the events\<close>

text \<open>The event is the taking of the global lock.\<close>

definition is_lock_taken :: "event \<Rightarrow> bool" where
  "is_lock_taken e = (case e of LockTaken d \<Rightarrow> True | _ \<Rightarrow> False)"



text \<open>The event is a call of \<^verbatim>\<open>run\<close>.\<close>

definition is_run_called :: "event \<Rightarrow> bool" where
  "is_run_called e = (case e of RunCalled name \<Rightarrow> True | _ \<Rightarrow> False)"

text \<open>
  Every event of the list is a call of \<^verbatim>\<open>run\<close> on the head of a queue of the dict that the
  provider owns in \<open>rc\<close>, and that may run: the controller is running, or the change can
  run at exit.
\<close>

definition run_events_ok ::
  "(string \<times> 'w change list) list \<Rightarrow> (string \<times> string) list \<Rightarrow> string \<Rightarrow> bool \<Rightarrow>
   event list \<Rightarrow> bool" where
  "run_events_ok items rc pid is_running new =
     (\<forall>e\<in>set new. \<exists>name c q. e = RunCalled name \<and> (name, c # q) \<in> set items \<and>
         map_of rc name = Some pid \<and> (is_running \<or> can_run_at_exit c))"

text \<open>
  When the loop has ended with a list of names to remove, the list has the name of every
  head of a queue that the provider owns and that may not run.
\<close>

definition removal_ok ::
  "(string \<times> 'w change list) list \<Rightarrow> (string \<times> string) list \<Rightarrow> string \<Rightarrow> bool \<Rightarrow>
   (error + string list) \<Rightarrow> bool" where
  "removal_ok items rc pid is_running res =
     (\<forall>rem'. res = Inr rem' \<longrightarrow>
        (\<forall>name c q. (name, c # q) \<in> set items \<and> map_of rc name = Some pid \<and>
            \<not> is_running \<and> \<not> can_run_at_exit c \<longrightarrow> get_name c \<in> set rem'))"

text \<open>Events that are neither the taking of the lock nor a call of \<^verbatim>\<open>run\<close>.\<close>

definition only_checks :: "event list \<Rightarrow> bool" where
  "only_checks new = (\<forall>e\<in>set new. \<not> is_lock_taken e \<and> \<not> is_run_called e)"

text \<open>No event of the list is a call of \<^verbatim>\<open>run\<close>.\<close>

definition no_run :: "event list \<Rightarrow> bool" where
  "no_run new = (\<forall>e\<in>set new. \<not> is_run_called e)"

subsection \<open>A concrete check\<close>

text \<open>
  The world is a counter of seconds; reading the clock takes one second, and so does the
  check, which returns no change. The interval is 5 seconds.
\<close>

definition ex_time :: "nat \<Rightarrow> real \<times> nat" where
  "ex_time w = (real w, Suc w)"

definition ex_check :: "nat Check" where
  "ex_check =
     \<lparr>check_interval_s = 5, last_check_timestamp_s = 0, check = (\<lambda>w. (Inr None, Suc w))\<rparr>"



subsection \<open>Concrete changes and controllers\<close>

text \<open>
  A change that is done after one call of \<^verbatim>\<open>run\<close>, which takes one second; \<open>e\<close> says
  whether it can run at exit.
\<close>

primcorec done_change :: "string \<Rightarrow> bool \<Rightarrow> nat change" where
  "done_change n e =
     Change n (\<lambda>acts. True) (\<lambda>acts w. (Inr False, done_change n e, Suc w)) e (\<lambda>w. w)"

text \<open>A running controller with one check and no change, at second 7.\<close>

definition ex_idle_controller :: "nat Controller" where
  "ex_idle_controller =
     \<lparr>checks = [ex_check], changes = [], running = True, zk_changes = [],
      events = [], world = 7\<rparr>"

text \<open>
  A stopped controller with two changes that it owns in the registry: \<open>''restart''\<close> can
  run at exit, \<open>''swap_partitions''\<close> cannot.
\<close>

definition ex_registry :: "(string \<times> string) list" where
  "ex_registry = [(''restart'', ''1.1.1.1''), (''swap_partitions'', ''1.1.1.1'')]"

definition ex_stopped_controller :: "nat Controller" where
  "ex_stopped_controller =
     \<lparr>checks = [ex_check],
      changes = [(''restart'', [done_change ''restart'' True]),
                 (''swap_partitions'', [done_change ''swap_partitions'' False])],
      running = False, zk_changes = ex_registry, events = [], world = 7\<rparr>"

chapter \<open>Properties\<close>

section \<open>Properties of the partition swap\<close>

subsection \<open>The selection loop\<close>

lemma best_swap_loop_cases:
  "(best_swap_loop cs g s m b = m \<and> (\<forall>c\<in>set cs. \<not> new_gap g s c < b)) \<or>
   (\<exists>f. best_swap_loop cs g s m b = Some f \<and> f \<in> set cs \<and> new_gap g s f < b \<and>
        (\<forall>c\<in>set cs. new_gap g s f \<le> new_gap g s c))"
proof (induction cs arbitrary: m b)
  case Nil
  show ?case by simp
next
  case (Cons tp cs)
  show ?case
  proof (cases "new_gap g s tp < b")
    case True
    from Cons.IH [of "Some tp" "new_gap g s tp"] show ?thesis
    proof
      assume "best_swap_loop cs g s (Some tp) (new_gap g s tp) = Some tp \<and>
              (\<forall>c\<in>set cs. \<not> new_gap g s c < new_gap g s tp)"
      with True show ?thesis by (intro disjI2 exI [of _ tp]) auto
    next
      assume "\<exists>f. best_swap_loop cs g s (Some tp) (new_gap g s tp) = Some f \<and> f \<in> set cs \<and>
                new_gap g s f < new_gap g s tp \<and> (\<forall>c\<in>set cs. new_gap g s f \<le> new_gap g s c)"
      then obtain f where "best_swap_loop cs g s (Some tp) (new_gap g s tp) = Some f"
        "f \<in> set cs" "new_gap g s f < new_gap g s tp" "\<forall>c\<in>set cs. new_gap g s f \<le> new_gap g s c"
        by blast
      with True show ?thesis by (intro disjI2 exI [of _ f]) auto
    qed
  next
    case False
    from Cons.IH [of m b] show ?thesis
    proof
      assume "best_swap_loop cs g s m b = m \<and> (\<forall>c\<in>set cs. \<not> new_gap g s c < b)"
      with False show ?thesis by auto
    next
      assume "\<exists>f. best_swap_loop cs g s m b = Some f \<and> f \<in> set cs \<and>
                new_gap g s f < b \<and> (\<forall>c\<in>set cs. new_gap g s f \<le> new_gap g s c)"
      then obtain f where "best_swap_loop cs g s m b = Some f"
        "f \<in> set cs" "new_gap g s f < b" "\<forall>c\<in>set cs. new_gap g s f \<le> new_gap g s c"
        by blast
      with False show ?thesis by (intro disjI2 exI [of _ f]) auto
    qed
  qed
qed

lemma set_sort_by_size_desc: "set (sort_by_size_desc cs) = set cs"
  by (simp add: sort_by_size_desc_def)

text \<open>
  For every list of candidates, every gap \<open>g\<close> (positive or not) and every size \<open>s\<close>: a
  candidate \<open>f\<close> that \<^verbatim>\<open>__find_best_swap_candidate\<close> returns is one of the candidates,
  satisfies \<open>|g - 2 * |f.size - s|| < g\<close> strictly, and reaches the least value of
  \<open>|g - 2 * |c.size - s||\<close> over all candidates \<open>c\<close>; and when no candidate has a value
  strictly below \<open>g\<close>, the selection returns \<^verbatim>\<open>None\<close>.
\<close>

lemma find_best_Some:
  assumes "find_best_swap_candidate cs g s = Some f"
  shows "f \<in> set cs \<and> new_gap g s f < g \<and> (\<forall>c\<in>set cs. new_gap g s f \<le> new_gap g s c)"
  using assms best_swap_loop_cases [of "sort_by_size_desc cs" g s None g]
  by (auto simp: find_best_swap_candidate_def set_sort_by_size_desc)

lemma find_best_None:
  assumes "\<forall>c\<in>set cs. \<not> new_gap g s c < g"
  shows "find_best_swap_candidate cs g s = None"
  using assms best_swap_loop_cases [of "sort_by_size_desc cs" g s None g]
  by (auto simp: find_best_swap_candidate_def set_sort_by_size_desc)

text \<open>
  When \<^verbatim>\<open>run\<close> has reached the selection and it returns \<^verbatim>\<open>None\<close>, \<^verbatim>\<open>run\<close> returns
  \<^verbatim>\<open>False\<close>, and neither the change nor the store has changed.
\<close>

lemma run_no_match:
  assumes "\<not> should_be_cancelled env acts" "\<not> truthy_plan (to_move self)"
    "load_partition_assignment env zk = Inr pa"
    "find_all_swap_candidates pa (fat_broker_id self) (slim_broker_id self)
       (merge_topics_stats (size_stats self)) (slim_broker_id self) = Some sl"
    "min_by_size sl = Inr sm"
    "find_all_swap_candidates pa (fat_broker_id self) (slim_broker_id self)
       (merge_topics_stats (size_stats self)) (fat_broker_id self) = Some fl"
    "find_best_swap_candidate fl (gap self) (size_kb sm) = None"
  shows "run env self acts zk = (Inr False, self, zk)"
  using assms by (simp add: run_def Let_def)

lemma ex_merged:
  "merge_topics_stats (size_stats ex_self) =
     [''U'' \<mapsto> [0 \<mapsto> 50, 1 \<mapsto> 50], ''T'' \<mapsto> [0 \<mapsto> 50]]"
  by (simp add: ex_self_def merge_topics_stats_def merge_topic_def dict_update_def)

lemma ex_candidates:
  "find_all_swap_candidates ex_assignment ''1'' ''2''
     [''U'' \<mapsto> [0 \<mapsto> 50, 1 \<mapsto> 50], ''T'' \<mapsto> [0 \<mapsto> 50]] =
   [''2'' \<mapsto> [ex_slim_smallest], ''1'' \<mapsto> ex_even_candidates]"
  by (simp add: find_all_swap_candidates_def ex_assignment_def add_candidate_def
      ex_slim_smallest_def ex_even_candidates_def)

text \<open>
  The selection among sizes 40, 60 and 55 for a slim partition of size 10 and a gap of 100
  returns the partition of size 60, for which the new gap is 0. Among candidates of the size
  of the slim partition no swap reduces the gap: the selection returns \<^verbatim>\<open>None\<close> and
  \<^verbatim>\<open>run\<close> returns \<^verbatim>\<open>False\<close>.
\<close>

lemma ex_selection:
  "find_best_swap_candidate ex_fat_candidates 100 10 = Some ex_u0 \<and>
   new_gap 100 10 ex_u0 = 0 \<and>
   find_best_swap_candidate ex_even_candidates 100 50 = None \<and>
   run ex_env ex_self [] () = (Inr False, ex_self, ())"
proof -
  have h1: "find_best_swap_candidate ex_fat_candidates 100 10 = Some ex_u0"
    by (simp add: find_best_swap_candidate_def sort_by_size_desc_def new_gap_def
        ex_fat_candidates_def ex_u0_def)
  have h2: "new_gap 100 10 ex_u0 = 0"
    by (simp add: new_gap_def ex_u0_def)
  have "\<forall>c\<in>set ex_even_candidates. \<not> new_gap 100 50 c < 100"
    by (simp add: ex_even_candidates_def new_gap_def)
  then have h3: "find_best_swap_candidate ex_even_candidates 100 50 = None"
    by (rule find_best_None)
  have "run ex_env ex_self [] () = (Inr False, ex_self, ())"
  proof (rule run_no_match [where pa = ex_assignment and sl = "[ex_slim_smallest]"
        and sm = ex_slim_smallest and fl = ex_even_candidates])
    show "\<not> should_be_cancelled ex_env []" by (simp add: ex_env_def)
    show "\<not> truthy_plan (to_move ex_self)" by (simp add: ex_self_def truthy_plan_def)
    show "load_partition_assignment ex_env () = Inr ex_assignment" by (simp add: ex_env_def)
    show "find_all_swap_candidates ex_assignment (fat_broker_id ex_self)
        (slim_broker_id ex_self) (merge_topics_stats (size_stats ex_self))
        (slim_broker_id ex_self) = Some [ex_slim_smallest]"
      unfolding ex_merged by (simp add: ex_self_def ex_candidates)
    show "min_by_size [ex_slim_smallest] = Inr ex_slim_smallest" by simp
    show "find_all_swap_candidates ex_assignment (fat_broker_id ex_self)
        (slim_broker_id ex_self) (merge_topics_stats (size_stats ex_self))
        (fat_broker_id ex_self) = Some ex_even_candidates"
      unfolding ex_merged by (simp add: ex_self_def ex_candidates)
    show "find_best_swap_candidate ex_even_candidates (gap ex_self)
        (size_kb ex_slim_smallest) = None"
      using h3 by (simp add: ex_self_def ex_slim_smallest_def)
  qed
  with h1 h2 h3 show ?thesis by simp
qed

subsection \<open>The candidates\<close>

lemma in_candidates_add:
  "in_candidates (add_candidate tp0 b0 c) b tp \<longleftrightarrow>
     in_candidates c b tp \<or> (b = b0 \<and> tp = tp0 \<and> b0 \<in> set (replicas tp0))"
  by (auto simp: in_candidates_def add_candidate_def split: option.splits)

lemma TpData_eq_fields:
  "tp = \<lparr>topic = t, partition = p, size_kb = sz, replicas = rs\<rparr> \<longleftrightarrow>
     topic tp = t \<and> partition tp = p \<and> size_kb tp = sz \<and> replicas tp = rs"
  by (cases tp) auto

text \<open>
  The invariant of the loop: what is in the dict at the end was there at the start, or
  comes from an entry of the assignment that passed both tests.
\<close>

lemma in_candidates_loop:
  "in_candidates (find_all_loop pa fat slim ts acc) b tp \<longleftrightarrow>
     in_candidates acc b tp \<or>
     ((b = slim \<or> b = fat) \<and> b \<in> set (replicas tp) \<and>
      (topic tp, partition tp, replicas tp) \<in> set pa \<and>
      known_size ts (topic tp) (partition tp) = Some (size_kb tp) \<and>
      \<not> (fat \<in> set (replicas tp) \<and> slim \<in> set (replicas tp)))"
proof (induction pa fat slim ts acc rule: find_all_loop.induct)
  case (1 fat slim ts acc)
  show ?case by simp
next
  case (2 t p rs rest fat slim ts acc)
  show ?case
  proof (cases "ts t")
    case None
    with 2(1) show ?thesis by (auto simp: known_size_def)
  next
    case (Some sizes)
    note ts = this
    show ?thesis
    proof (cases "sizes p")
      case None
      with 2(2) ts show ?thesis by (auto simp: known_size_def)
    next
      case (Some sz)
      note sz = this
      show ?thesis
      proof (cases "fat \<in> set rs \<and> slim \<in> set rs")
        case True
        with 2(3) [OF ts sz] ts sz show ?thesis by (auto simp: known_size_def)
      next
        case False
        from 2(4) [OF ts sz False] ts sz False show ?thesis
          by (auto simp: known_size_def in_candidates_add TpData_eq_fields)
      qed
    qed
  qed
qed

lemma in_candidates_find_all:
  "in_candidates (find_all_swap_candidates pa fat slim ts) b tp \<longleftrightarrow>
     ((b = slim \<or> b = fat) \<and> b \<in> set (replicas tp) \<and>
      (topic tp, partition tp, replicas tp) \<in> set pa \<and>
      known_size ts (topic tp) (partition tp) = Some (size_kb tp) \<and>
      \<not> (fat \<in> set (replicas tp) \<and> slim \<in> set (replicas tp)))"
  by (simp add: find_all_swap_candidates_def in_candidates_loop) (simp add: in_candidates_def)

text \<open>
  Claim C6. For every partition \<open>(t, p, rs)\<close> of the loaded partition assignment and every
  size \<open>sz\<close>: \<^verbatim>\<open>__find_all_swap_candidates\<close> puts \<^verbatim>\<open>TpData(t, p, sz, rs)\<close> into the list of
  some broker if and only if \<open>sz\<close> is the size that the merged \<^verbatim>\<open>topics_stats\<close> hold for
  \<open>(t, p)\<close> and exactly one of the fat and the slim broker is in \<open>rs\<close>. And every
  candidate that is returned comes from the assignment, is in the list of the fat or of the
  slim broker, has that broker among its replicas, and is not replicated on both.
\<close>

theorem find_all_swap_candidates_exactly_one:
  "((t, p, rs) \<in> set pa \<longrightarrow>
      ((\<exists>b. in_candidates (find_all_swap_candidates pa fat slim ts) b
               \<lparr>topic = t, partition = p, size_kb = sz, replicas = rs\<rparr>) \<longleftrightarrow>
       known_size ts t p = Some sz \<and> (fat \<in> set rs) \<noteq> (slim \<in> set rs))) \<and>
   (in_candidates (find_all_swap_candidates pa fat slim ts) b tp \<longrightarrow>
      (topic tp, partition tp, replicas tp) \<in> set pa \<and>
      (b = fat \<or> b = slim) \<and> b \<in> set (replicas tp) \<and>
      \<not> (fat \<in> set (replicas tp) \<and> slim \<in> set (replicas tp)))"
  by (auto simp: in_candidates_find_all)

theorem find_all_swap_candidates_exactly_one_witness:
  "(''U'', 0, [''1'']) \<in> set ex_mixed_assignment \<and>
   in_candidates (find_all_swap_candidates ex_mixed_assignment ''1'' ''2'' ex_topics_stats) ''1''
     \<lparr>topic = ''U'', partition = 0, size_kb = 50, replicas = [''1'']\<rparr> \<and>
   known_size ex_topics_stats ''U'' 0 = Some 50 \<and>
   (''V'', 0, [''1'', ''2'']) \<in> set ex_mixed_assignment \<and>
   \<not> (\<exists>b. in_candidates (find_all_swap_candidates ex_mixed_assignment ''1'' ''2'' ex_topics_stats)
          b \<lparr>topic = ''V'', partition = 0, size_kb = 7, replicas = [''1'', ''2'']\<rparr>) \<and>
   (''W'', 0, [''2'']) \<in> set ex_mixed_assignment \<and>
   \<not> (\<exists>b. in_candidates (find_all_swap_candidates ex_mixed_assignment ''1'' ''2'' ex_topics_stats)
          b \<lparr>topic = ''W'', partition = 0, size_kb = 7, replicas = [''2'']\<rparr>)"
proof -
  have cands: "find_all_swap_candidates ex_mixed_assignment ''1'' ''2'' ex_topics_stats =
      [''1'' \<mapsto> [\<lparr>topic = ''U'', partition = 0, size_kb = 50, replicas = [''1'']\<rparr>]]"
    by (simp add: find_all_swap_candidates_def ex_mixed_assignment_def ex_topics_stats_def
        add_candidate_def)
  have u: "(''U'', 0, [''1'']) \<in> set ex_mixed_assignment"
    and v: "(''V'', 0, [''1'', ''2'']) \<in> set ex_mixed_assignment"
    and w: "(''W'', 0, [''2'']) \<in> set ex_mixed_assignment"
    by (simp_all add: ex_mixed_assignment_def)
  have ks: "known_size ex_topics_stats ''U'' 0 = Some 50"
    "known_size ex_topics_stats ''V'' 0 = Some 7"
    "known_size ex_topics_stats ''W'' 0 = None"
    by (simp_all add: known_size_def ex_topics_stats_def)
  note a = find_all_swap_candidates_exactly_one
    [of "''U''" 0 "[''1'']" ex_mixed_assignment "''1''" "''2''" ex_topics_stats 50,
     THEN conjunct1, THEN mp, OF u]
  note b = find_all_swap_candidates_exactly_one
    [of "''V''" 0 "[''1'', ''2'']" ex_mixed_assignment "''1''" "''2''" ex_topics_stats 7,
     THEN conjunct1, THEN mp, OF v]
  note c = find_all_swap_candidates_exactly_one
    [of "''W''" 0 "[''2'']" ex_mixed_assignment "''1''" "''2''" ex_topics_stats 7,
     THEN conjunct1, THEN mp, OF w]
  have "in_candidates (find_all_swap_candidates ex_mixed_assignment ''1'' ''2'' ex_topics_stats)
     ''1'' \<lparr>topic = ''U'', partition = 0, size_kb = 50, replicas = [''1'']\<rparr>"
    by (simp add: cands in_candidates_def)
  with a b c u v w ks show ?thesis by simp
qed

subsection \<open>A run without candidates on the slim broker\<close>

text \<open>
  The dict of candidates gets a key only together with its first candidate. When no
  partition of the assignment is a candidate on the slim broker, the key of the slim broker
  is missing, and \<^verbatim>\<open>swap_partition_candidates[self.slim_broker_id]\<close> raises \<^verbatim>\<open>KeyError\<close>
  before \<^verbatim>\<open>min\<close> is called and before the message about the slim broker is logged.
\<close>

lemma run_no_slim_candidates:
  assumes "\<not> should_be_cancelled env acts" "\<not> truthy_plan (to_move self)"
    "load_partition_assignment env zk = Inr pa"
    "find_all_swap_candidates pa (fat_broker_id self) (slim_broker_id self)
       (merge_topics_stats (size_stats self)) (slim_broker_id self) = None"
  shows "run env self acts zk = (Inl KeyError, self, zk)"
  using assms by (simp add: run_def Let_def)

text \<open>
  Claim C5 says that a run whose set of candidates on the slim broker is empty logs that
  and returns \<^verbatim>\<open>False\<close> without raising. On the assignment
  \<^verbatim>\<open>[("U", 0, ["1"]), ("U", 1, ["1"])]\<close>, with fat broker \<^verbatim>\<open>"1"\<close> and slim broker \<^verbatim>\<open>"2"\<close>,
  both partitions are candidates of the fat broker and none of the slim one:
  \<^verbatim>\<open>run\<close> raises \<^verbatim>\<open>KeyError\<close>.
\<close>

theorem run_without_slim_candidates_raises:
  "run ex_env_no_slim ex_self [] () = (Inl KeyError, ex_self, ())"
proof -
  have "find_all_swap_candidates [(''U'', 0, [''1'']), (''U'', 1, [''1''])] ''1'' ''2''
     [''U'' \<mapsto> [0 \<mapsto> 50, 1 \<mapsto> 50], ''T'' \<mapsto> [0 \<mapsto> 50]] ''2'' = None"
    by (simp add: find_all_swap_candidates_def add_candidate_def)
  then show ?thesis
    by (simp add: run_def ex_env_no_slim_def ex_merged Let_def)
       (simp add: ex_self_def truthy_plan_def)
qed

subsection \<open>A run without candidates on the fat broker\<close>

text \<open>
  A list in the dict of candidates is never empty: a key is created together with its first
  candidate.
\<close>

lemma add_candidate_nonempty:
  assumes "\<forall>b l. c b = Some l \<longrightarrow> l \<noteq> []"
  shows "\<forall>b l. add_candidate tp b0 c b = Some l \<longrightarrow> l \<noteq> []"
  using assms by (auto simp: add_candidate_def)

lemma find_all_loop_nonempty:
  assumes "\<forall>b l. acc b = Some l \<longrightarrow> l \<noteq> []"
  shows "\<forall>b l. find_all_loop pa fat slim ts acc b = Some l \<longrightarrow> l \<noteq> []"
  using assms
proof (induction pa fat slim ts acc rule: find_all_loop.induct)
  case (1 fat slim ts acc)
  then show ?case by simp
next
  case (2 t p rs rest fat slim ts acc)
  show ?case
  proof (cases "ts t")
    case None
    with 2(1) 2(5) show ?thesis by simp
  next
    case (Some sizes)
    note ts = this
    show ?thesis
    proof (cases "sizes p")
      case None
      with 2(2) [OF ts] 2(5) ts show ?thesis by simp
    next
      case (Some sz)
      note sz = this
      show ?thesis
      proof (cases "fat \<in> set rs \<and> slim \<in> set rs")
        case True
        with 2(3) [OF ts sz] 2(5) ts sz show ?thesis by simp
      next
        case False
        let ?tp = "\<lparr>topic = t, partition = p, size_kb = sz, replicas = rs\<rparr>"
        have "\<forall>b l. add_candidate ?tp fat (add_candidate ?tp slim acc) b = Some l \<longrightarrow> l \<noteq> []"
          by (intro add_candidate_nonempty 2(5))
        then have "\<forall>b l. fold (add_candidate ?tp) [slim, fat] acc b = Some l \<longrightarrow> l \<noteq> []"
          by simp
        from 2(4) [OF ts sz False this] ts sz False show ?thesis by auto
      qed
    qed
  qed
qed

lemma find_all_swap_candidates_nonempty:
  assumes "find_all_swap_candidates pa fat slim ts b = Some l"
  shows "l \<noteq> []"
  using assms find_all_loop_nonempty [of Map.empty pa fat slim ts]
  by (simp add: find_all_swap_candidates_def)

text \<open>
  So when no partition of the assignment is a candidate on the fat broker, the key of the
  fat broker is missing, and \<^verbatim>\<open>swap_partition_candidates[self.fat_broker_id]\<close> raises
  \<^verbatim>\<open>KeyError\<close> before \<^verbatim>\<open>__find_best_swap_candidate\<close> is called.
\<close>

lemma run_no_fat_candidates:
  assumes "\<not> should_be_cancelled env acts" "\<not> truthy_plan (to_move self)"
    "load_partition_assignment env zk = Inr pa"
    "find_all_swap_candidates pa (fat_broker_id self) (slim_broker_id self)
       (merge_topics_stats (size_stats self)) (slim_broker_id self) = Some sl"
    "min_by_size sl = Inr sm"
    "find_all_swap_candidates pa (fat_broker_id self) (slim_broker_id self)
       (merge_topics_stats (size_stats self)) (fat_broker_id self) = None"
  shows "run env self acts zk = (Inl KeyError, self, zk)"
  using assms by (simp add: run_def Let_def)

text \<open>
  Claim C4 says that for every list of candidates of the fat broker, when no candidate
  brings the gap strictly below \<open>g\<close>, no candidate is returned and the change cancels. On
  the assignment \<^verbatim>\<open>[("T", 0, ["2"])]\<close>, with fat broker \<^verbatim>\<open>"1"\<close>, slim broker \<^verbatim>\<open>"2"\<close> and
  the gap 100, the slim broker has the candidate \<^verbatim>\<open>T/0\<close> of size 50 and the fat broker has
  no candidate: the selection on the empty list returns \<^verbatim>\<open>None\<close>, but \<^verbatim>\<open>run\<close> does not
  reach it, the dict has no key for the fat broker and \<^verbatim>\<open>run\<close> raises \<^verbatim>\<open>KeyError\<close>.
\<close>

theorem run_without_fat_candidates_raises:
  "find_best_swap_candidate ([] :: string TpData list) (gap ex_self) 50 = None \<and>
   find_all_swap_candidates [(''T'', 0, [''2''])] (fat_broker_id ex_self)
     (slim_broker_id ex_self) (merge_topics_stats (size_stats ex_self))
     (slim_broker_id ex_self) = Some [ex_slim_smallest] \<and>
   find_all_swap_candidates [(''T'', 0, [''2''])] (fat_broker_id ex_self)
     (slim_broker_id ex_self) (merge_topics_stats (size_stats ex_self))
     (fat_broker_id ex_self) = None \<and>
   run ex_env_no_fat ex_self [] () = (Inl KeyError, ex_self, ())"
proof -
  have sel: "find_best_swap_candidate ([] :: string TpData list) (gap ex_self) 50 = None"
    by (simp add: find_best_swap_candidate_def sort_by_size_desc_def)
  have cands: "find_all_swap_candidates [(''T'', 0, [''2''])] ''1'' ''2''
     [''U'' \<mapsto> [0 \<mapsto> 50, 1 \<mapsto> 50], ''T'' \<mapsto> [0 \<mapsto> 50]] = [''2'' \<mapsto> [ex_slim_smallest]]"
    by (simp add: find_all_swap_candidates_def add_candidate_def ex_slim_smallest_def)
  have slim: "find_all_swap_candidates [(''T'', 0, [''2''])] (fat_broker_id ex_self)
     (slim_broker_id ex_self) (merge_topics_stats (size_stats ex_self))
     (slim_broker_id ex_self) = Some [ex_slim_smallest]"
    unfolding ex_merged by (simp add: ex_self_def cands)
  have fat: "find_all_swap_candidates [(''T'', 0, [''2''])] (fat_broker_id ex_self)
     (slim_broker_id ex_self) (merge_topics_stats (size_stats ex_self))
     (fat_broker_id ex_self) = None"
    unfolding ex_merged by (simp add: ex_self_def cands)
  have "run ex_env_no_fat ex_self [] () = (Inl KeyError, ex_self, ())"
  proof (rule run_no_fat_candidates [where pa = "[(''T'', 0, [''2''])]"
        and sl = "[ex_slim_smallest]" and sm = ex_slim_smallest])
    show "\<not> should_be_cancelled ex_env_no_fat []" by (simp add: ex_env_no_fat_def)
    show "\<not> truthy_plan (to_move ex_self)" by (simp add: ex_self_def truthy_plan_def)
    show "load_partition_assignment ex_env_no_fat () = Inr [(''T'', 0, [''2''])]"
      by (simp add: ex_env_no_fat_def)
    show "min_by_size [ex_slim_smallest] = Inr ex_slim_smallest" by simp
  qed (rule slim fat)+
  with sel slim fat show ?thesis by simp
qed

section \<open>Properties of the broker manager\<close>

lemma str_int_5: "str_int 5 = ''5''" "str_int 6 = ''6''"
  by (simp_all add: str_int_def str_nat.simps)

lemma have_leadership_skipped:
  assumes "kafka_properties self ''unclean.leader.election.enable'' = None \<or>
           kafka_properties self ''unclean.leader.election.enable'' = Some ''true''"
  shows "have_leadership self zk = (Inr False, [])"
  using assms by (auto simp: have_leadership_def is_clean_election_def)

text \<open>
  Claim C1, as amended. The gate \<^verbatim>\<open>_is_clean_election\<close> takes the configuration as clean
  exactly when the property \<^verbatim>\<open>unclean.leader.election.enable\<close> is set and is not the string
  \<^verbatim>\<open>"true"\<close>: \<^verbatim>\<open>"false"\<close> is clean, and so is every other string. When the property is not
  set or is \<^verbatim>\<open>"true"\<close>, the scan is skipped: \<^verbatim>\<open>stop_kafka_process\<close> returns \<^verbatim>\<open>True\<close>
  for every content of the store, and does not access the store.
\<close>

theorem clean_election_gate:
  "(is_clean_election self \<longleftrightarrow>
      (\<exists>v. kafka_properties self ''unclean.leader.election.enable'' = Some v \<and> v \<noteq> ''true'')) \<and>
   (kafka_properties self ''unclean.leader.election.enable'' = None \<or>
    kafka_properties self ''unclean.leader.election.enable'' = Some ''true'' \<longrightarrow>
      stop_kafka_process self zk = (Inr True, self\<lparr>process := None\<rparr>, []))"
proof (intro conjI impI)
  show "is_clean_election self \<longleftrightarrow>
      (\<exists>v. kafka_properties self ''unclean.leader.election.enable'' = Some v \<and> v \<noteq> ''true'')"
    by (simp add: is_clean_election_def split: option.split)
next
  assume a: "kafka_properties self ''unclean.leader.election.enable'' = None \<or>
    kafka_properties self ''unclean.leader.election.enable'' = Some ''true''"
  then have "kafka_properties (wait_for_zk_absence (terminate_process self))
       ''unclean.leader.election.enable'' = None \<or>
     kafka_properties (wait_for_zk_absence (terminate_process self))
       ''unclean.leader.election.enable'' = Some ''true''"
    by (simp add: wait_for_zk_absence_def terminate_process_def)
  from have_leadership_skipped [OF this, of zk]
  show "stop_kafka_process self zk = (Inr True, self\<lparr>process := None\<rparr>, [])"
    by (simp add: stop_kafka_process_def not_result_def wait_for_zk_absence_def
        terminate_process_def)
qed

theorem clean_election_gate_witness:
  "is_clean_election (ex_manager ''false'' (Some ''5'')) \<and>
   kafka_properties (ex_manager ''true'' (Some ''5'')) ''unclean.leader.election.enable''
     = Some ''true'' \<and>
   stop_kafka_process (ex_manager ''true'' (Some ''5'')) ex_topics =
     (Inr True, (ex_manager ''true'' (Some ''5''))\<lparr>process := None\<rparr>, [])"
proof -
  have p: "kafka_properties (ex_manager ''true'' (Some ''5'')) ''unclean.leader.election.enable''
     = Some ''true''"
    by (simp add: ex_manager_def)
  have q: "\<exists>v. kafka_properties (ex_manager ''false'' (Some ''5''))
      ''unclean.leader.election.enable'' = Some v \<and> v \<noteq> ''true''"
    by (simp add: ex_manager_def)
  from clean_election_gate [of "ex_manager ''false'' (Some ''5'')", THEN conjunct1] q
    clean_election_gate [of "ex_manager ''true'' (Some ''5'')" ex_topics, THEN conjunct2] p
  show ?thesis by simp
qed

text \<open>
  Claim C1 as stated is false for the value \<^verbatim>\<open>"yes"\<close>, which is not \<^verbatim>\<open>"false"\<close>: the gate
  takes it as clean, the scan runs, and with broker 5 leading a partition
  \<^verbatim>\<open>stop_kafka_process\<close> returns \<^verbatim>\<open>False\<close>.
\<close>

theorem clean_election_gate_counterexample:
  "is_clean_election (ex_manager ''yes'' (Some ''5'')) \<and>
   stop_kafka_process (ex_manager ''yes'' (Some ''5'')) ex_topics =
     (Inr False, (ex_manager ''yes'' (Some ''5''))\<lparr>process := None\<rparr>,
      [GetChildren ''/brokers/topics'', GetChildren ''/brokers/topics/T/partitions'',
       Get ''/brokers/topics/T/partitions/0/state''])"
  by (simp add: is_clean_election_def ex_manager_def stop_kafka_process_def have_leadership_def
      wait_for_zk_absence_def terminate_process_def str_broker_id_def ex_topics_def
      get_children_topics_def get_children_partitions_def get_state_def str_int_5
      not_result_def)

text \<open>
  Claim C10 says that with the gate active and a broker id that is \<^verbatim>\<open>None\<close> or empty,
  \<^verbatim>\<open>stop_kafka_process\<close> returns \<^verbatim>\<open>True\<close> without reading the partition states. The code
  tests \<^verbatim>\<open>not broker_id\<close> after \<^verbatim>\<open>broker_id = str(...)\<close>, and \<^verbatim>\<open>str(None)\<close> is \<^verbatim>\<open>'None'\<close>:
  for \<^verbatim>\<open>None\<close> the scan runs and reads the state of the partition.
\<close>

theorem stop_with_broker_id_None_scans:
  "is_clean_election (ex_manager ''false'' None) \<and>
   stop_kafka_process (ex_manager ''false'' None) ex_topics =
     (Inr True, (ex_manager ''false'' None)\<lparr>process := None\<rparr>,
      [GetChildren ''/brokers/topics'', GetChildren ''/brokers/topics/T/partitions'',
       Get ''/brokers/topics/T/partitions/0/state''])"
  by (simp add: is_clean_election_def ex_manager_def stop_kafka_process_def have_leadership_def
      wait_for_zk_absence_def terminate_process_def str_broker_id_def ex_topics_def
      get_children_topics_def get_children_partitions_def get_state_def str_int_5
      not_result_def)

text \<open>For the empty string the test holds, and the store is not read.\<close>

lemma stop_with_empty_broker_id:
  assumes "broker_id self = Some []"
  shows "stop_kafka_process self zk = (Inr True, self\<lparr>process := None\<rparr>, [])"
  using assms
  by (simp add: stop_kafka_process_def have_leadership_def wait_for_zk_absence_def
      terminate_process_def str_broker_id_def not_result_def)

section \<open>Properties of the submission of a reassignment\<close>

text \<open>When the node exists, no call changes the store, whatever its arguments are.\<close>

lemma reallocate_partition_exists:
  assumes "zk ''/admin/reassign_partitions'' \<noteq> None"
  shows "snd (reallocate_partition zk t p r) = zk"
  using assms
  by (auto simp: reallocate_partition_def exhibitor_create_def
      split: sum.splits option.splits error.splits)

text \<open>
  Claim C2. For every state of the store: when the node \<^verbatim>\<open>/admin/reassign_partitions\<close>
  exists, a call of \<^verbatim>\<open>reallocate_partition\<close> leaves the store as it is, and returns
  \<^verbatim>\<open>False\<close> when its arguments convert to integers (otherwise \<^verbatim>\<open>int\<close> has raised before
  the store is touched); when the node does not exist and the arguments convert, the call
  creates it in one step, holding the JSON of the plan, and returns \<^verbatim>\<open>True\<close>.
\<close>

theorem reallocate_partition_singleton:
  "(zk ''/admin/reassign_partitions'' \<noteq> None \<longrightarrow>
      snd (reallocate_partition zk t p r) = zk \<and>
      (py_int p = Inr n \<and> py_int_list r = Inr rs \<longrightarrow>
         reallocate_partition zk t p r = (Inr False, zk))) \<and>
   (zk ''/admin/reassign_partitions'' = None \<and> py_int p = Inr n \<and> py_int_list r = Inr rs \<longrightarrow>
      reallocate_partition zk t p r =
        (Inr True, zk(''/admin/reassign_partitions'' \<mapsto> Json_bytes (reassignment_json t n rs))))"
proof (intro conjI impI)
  assume "zk ''/admin/reassign_partitions'' \<noteq> None"
  then show "snd (reallocate_partition zk t p r) = zk" by (rule reallocate_partition_exists)
next
  assume "zk ''/admin/reassign_partitions'' \<noteq> None" "py_int p = Inr n \<and> py_int_list r = Inr rs"
  then show "reallocate_partition zk t p r = (Inr False, zk)"
    by (auto simp: reallocate_partition_def exhibitor_create_def)
next
  assume "zk ''/admin/reassign_partitions'' = None \<and> py_int p = Inr n \<and> py_int_list r = Inr rs"
  then show "reallocate_partition zk t p r =
        (Inr True, zk(''/admin/reassign_partitions'' \<mapsto> Json_bytes (reassignment_json t n rs)))"
    by (simp add: reallocate_partition_def exhibitor_create_def)
qed

lemma ex_conversion_3: "py_int (PyStr ''3'') = Inr 3"
  by (simp add: py_int_def parse_int_def strip_def is_space_def digit_val_def)

lemma ex_conversion_2: "py_int (PyInt 2) = Inr 2"
  by (simp add: py_int_def)

lemma ex_conversion_7: "py_int (PyStr '' 7'') = Inr 7"
  by (simp add: py_int_def parse_int_def strip_def is_space_def digit_val_def)

lemmas ex_conversions = ex_conversion_3 ex_conversion_2 ex_conversion_7

lemma ex_plan_json_eq: "reassignment_json ''T'' 3 [2, 7] = ex_plan_json"
  by (simp add: reassignment_json_def ex_plan_json_def)

theorem reallocate_partition_singleton_witness:
  "reallocate_partition Map.empty ''T'' (PyStr ''3'') [PyInt 2, PyStr '' 7''] =
     (Inr True, [''/admin/reassign_partitions'' \<mapsto> Json_bytes ex_plan_json]) \<and>
   reallocate_partition [''/admin/reassign_partitions'' \<mapsto> Json_bytes ex_plan_json]
       ''U'' (PyStr ''3'') [PyInt 2, PyStr '' 7''] =
     (Inr False, [''/admin/reassign_partitions'' \<mapsto> Json_bytes ex_plan_json])"
proof -
  have a: "(Map.empty :: zk_nodes) ''/admin/reassign_partitions'' = None \<and>
      py_int (PyStr ''3'') = Inr 3 \<and> py_int_list [PyInt 2, PyStr '' 7''] = Inr [2, 7]"
    by (simp add: ex_conversions)
  have b: "[''/admin/reassign_partitions'' \<mapsto> Json_bytes ex_plan_json]
      ''/admin/reassign_partitions'' \<noteq> None"
    by simp
  have c: "py_int (PyStr ''3'') = Inr 3 \<and> py_int_list [PyInt 2, PyStr '' 7''] = Inr [2, 7]"
    by (simp add: ex_conversions)
  note first = reallocate_partition_singleton
    [where zk = Map.empty and t = "''T''" and p = "PyStr ''3''"
       and r = "[PyInt 2, PyStr '' 7'']" and n = 3 and rs = "[2, 7]",
     THEN conjunct2, THEN mp, OF a]
  note second = reallocate_partition_singleton
    [where zk = "[''/admin/reassign_partitions'' \<mapsto> Json_bytes ex_plan_json]"
       and t = "''U''" and p = "PyStr ''3''"
       and r = "[PyInt 2, PyStr '' 7'']" and n = 3 and rs = "[2, 7]",
     THEN conjunct1, THEN mp, OF b, THEN conjunct2, THEN mp, OF c]
  from first second show ?thesis by (simp add: ex_plan_json_eq)
qed

text \<open>
  Claim C3 says that the submission takes a single \<^verbatim>\<open>(topic, partition, replicas)\<close> or a list
  of them. \<^verbatim>\<open>__perform_swap\<close> submits its list of two with
  \<^verbatim>\<open>self.zk.reallocate_partitions(swap_json)\<close>, a name that \<^verbatim>\<open>BukuExhibitor\<close> does not
  define: whatever body one gives the method, the call raises \<^verbatim>\<open>AttributeError\<close> and the
  store is as before. The only submission of the class, \<^verbatim>\<open>reallocate_partition\<close>, takes one
  topic, one partition and its replicas, and writes a plan of one entry with integers.
\<close>

theorem perform_swap_on_BukuExhibitor_raises:
  "perform_swap (BukuExhibitor_env cancelled load body) ex_swap_plan zk =
     (Inl AttributeError, zk) \<and>
   reallocate_partition Map.empty ''T'' (PyStr ''3'') [PyInt 2, PyStr '' 7''] =
     (Inr True, [''/admin/reassign_partitions'' \<mapsto> Json_bytes ex_plan_json])"
  by (simp add: perform_swap_def BukuExhibitor_env_def bound_method_def
      BukuExhibitor_attributes_def reallocate_partition_def ex_conversions
      exhibitor_create_def ex_plan_json_eq)

section \<open>Properties of the controller\<close>

subsection \<open>The arithmetic of doubles\<close>

lemma round_even_bounds: "\<lfloor>y\<rfloor> \<le> round_even y" "round_even y \<le> \<lfloor>y\<rfloor> + 1"
  by (simp_all add: round_even_def)

lemma round_even_of_int: "round_even (of_int n) = n"
  by (simp add: round_even_def)

lemma round_even_numeral: "round_even (numeral k) = numeral k"
  using round_even_of_int [of "numeral k"] by simp


lemma powr_floor_log_le:
  assumes "0 < x"
  shows "(2 :: real) powr of_int \<lfloor>log 2 x\<rfloor> \<le> x"
  using floor_log_eq_powr_iff [of x 2 "\<lfloor>log 2 x\<rfloor>"] assms by simp

lemma scaled_ge_one:
  assumes "0 < x"
  shows "1 \<le> x / (2 :: real) powr of_int (\<lfloor>log 2 x\<rfloor> - 52)"
proof -
  have "(2 :: real) powr of_int (\<lfloor>log 2 x\<rfloor> - 52) \<le> 2 powr of_int \<lfloor>log 2 x\<rfloor>"
    by (simp add: powr_le_cancel_iff)
  also have "\<dots> \<le> x" using assms by (rule powr_floor_log_le)
  finally show ?thesis by (simp add: pos_le_divide_eq)
qed

text \<open>Rounding keeps the sign, and only zero is rounded to zero.\<close>

lemma to_double_nonpos_iff: "to_double x \<le> 0 \<longleftrightarrow> x \<le> 0"
proof (cases "x = 0")
  case True
  then show ?thesis by (simp add: to_double_def)
next
  case False
  let ?u = "(2 :: real) powr of_int (\<lfloor>log 2 \<bar>x\<bar>\<rfloor> - 52)"
  have u: "0 < ?u" by simp
  show ?thesis
  proof (cases "0 < x")
    case True
    then have "1 \<le> x / ?u" using scaled_ge_one [of x] by simp
    then have "1 \<le> \<lfloor>x / ?u\<rfloor>" by linarith
    with round_even_bounds(1) [of "x / ?u"] have "1 \<le> round_even (x / ?u)" by linarith
    then have "0 < of_int (round_even (x / ?u)) * ?u" using u by simp
    with True False show ?thesis by (simp add: to_double_def)
  next
    case neg: False
    with False have x: "x < 0" by simp
    then have "1 \<le> (- x) / ?u" using scaled_ge_one [of "- x"] by simp
    then have "x / ?u \<le> - 1" by simp
    then have "\<lfloor>x / ?u\<rfloor> \<le> - 1" by linarith
    with round_even_bounds(2) [of "x / ?u"] have "round_even (x / ?u) \<le> 0" by linarith
    then have "of_int (round_even (x / ?u)) * ?u \<le> 0"
      using u by (simp add: mult_le_0_iff)
    with x False show ?thesis by (simp add: to_double_def)
  qed
qed

text \<open>The test \<^verbatim>\<open>a - b <= 0\<close> on doubles is the test \<^verbatim>\<open>a <= b\<close>.\<close>

lemma float_sub_nonpos_iff: "float_sub a b \<le> 0 \<longleftrightarrow> a \<le> b"
  by (simp add: float_sub_def to_double_nonpos_iff)

text \<open>The double nearest to a number between \<open>2 ^ e\<close> and \<open>2 ^ Suc e\<close>.\<close>

lemma to_double_eval:
  assumes "2 ^ e \<le> \<bar>x\<bar>" "\<bar>x\<bar> < 2 ^ Suc e" "e \<le> 52"
  shows "to_double x = of_int (round_even (x * 2 ^ (52 - e))) / 2 ^ (52 - e)"
proof -
  from assms(1) have pos: "0 < \<bar>x\<bar>" by (smt (verit) zero_less_power)
  then have nz: "x \<noteq> 0" by simp
  have "\<lfloor>log 2 \<bar>x\<bar>\<rfloor> = int e"
    using assms(1,2) pos
    by (subst floor_log_eq_powr_iff)
       (simp_all add: powr_realpow powr_add)
  moreover have "2 powr of_int (int e - 52) = 1 / (2 :: real) ^ (52 - e)"
  proof -
    have "(of_int (int e - 52) :: real) = - real (52 - e)" using assms(3) by simp
    then have "(2 :: real) powr of_int (int e - 52) = 2 powr (- real (52 - e))"
      by (simp only:)
    also have "\<dots> = 1 / 2 ^ (52 - e)"
      by (simp add: powr_minus powr_realpow divide_simps)
    finally show ?thesis .
  qed
  ultimately show ?thesis using nz by (simp add: to_double_def)
qed

lemma ex_double_5: "float_add 0 5 = 5"
  by (simp add: float_add_def to_double_eval [where e = 2] round_even_numeral)


lemma ex_double_fine: "to_double (5 + 1 / 2 ^ 30) = 5 + 1 / 2 ^ 30"
  by (simp add: to_double_eval [where e = 2] round_even_numeral)



subsection \<open>The cadence of a check\<close>



text \<open>
  \<^verbatim>\<open>check_if_time\<close> invokes \<^verbatim>\<open>check\<close> exactly when the clock has reached the sum of the
  timestamp and the interval, as the doubles give it.
\<close>

lemma check_if_time_cases:
  "check_if_time time ck evs w =
     (if float_add (last_check_timestamp_s ck) (check_interval_s ck) \<le> fst (time w)
      then (fst (check ck (snd (time (snd (time w))))),
            ck\<lparr>last_check_timestamp_s := fst (time (snd (time w)))\<rparr>,
            evs @ [CheckInvoked (last_check_timestamp_s ck) (fst (time w))
                     (fst (time (snd (time w)))), CheckReturned],
            snd (check ck (snd (time (snd (time w))))))
      else (Inr None, ck, evs, snd (time w)))"
  by (simp add: check_if_time_def time_till_check_def float_sub_nonpos_iff case_prod_beta)






subsection \<open>Running the changes of a stopped controller\<close>

lemma run_events_ok_Cons:
  "run_events_ok rest rc pid r new \<Longrightarrow> run_events_ok (item # rest) rc pid r new"
  by (fastforce simp: run_events_ok_def)

lemma run_loop_props:
  assumes "run_loop items rc pid is_running rem evs w = (res, items', evs', w')"
  shows "\<exists>new. evs' = evs @ new \<and> run_events_ok items rc pid is_running new \<and>
     (\<forall>rem'. res = Inr rem' \<longrightarrow> set rem \<subseteq> set rem') \<and>
     removal_ok items rc pid is_running res"
  using assms
proof (induction items arbitrary: rem evs w res items' evs' w')
  case Nil
  then show ?case by (auto simp: run_events_ok_def removal_ok_def)
next
  case (Cons item rest)
  obtain name cl where item: "item = (name, cl)" by (cases item)
  show ?case
  proof (cases "map_of rc name = Some pid")
    case False
    obtain res1 rest1 evs1 w1 where
      r: "run_loop rest rc pid is_running rem evs w = (res1, rest1, evs1, w1)"
      by (metis prod_cases4)
    with Cons.prems item False have eq: "res = res1" "evs' = evs1" by auto
    from Cons.IH [OF r] obtain new where new: "evs1 = evs @ new"
      "run_events_ok rest rc pid is_running new"
      "\<forall>rem'. res1 = Inr rem' \<longrightarrow> set rem \<subseteq> set rem'"
      "removal_ok rest rc pid is_running res1" by blast
    have "removal_ok (item # rest) rc pid is_running res"
      using new(4) False item eq by (auto simp: removal_ok_def)
    with new eq show ?thesis
      by (intro exI [of _ new]) (simp add: run_events_ok_Cons)
  next
    case True
    note owned = this
    show ?thesis
    proof (cases cl)
      case Nil
      with Cons.prems item owned have "res = Inl IndexError" "evs' = evs" by auto
      then show ?thesis
        by (intro exI [of _ "[]"]) (simp add: run_events_ok_def removal_ok_def)
    next
      case (Cons c queue)
      note cl = this
      show ?thesis
      proof (cases "is_running \<or> can_run_at_exit c")
        case True
        obtain r c' w0 where
          run: "change_run c (exclude_self pid (get_name c) rc) w = (r, c', w0)"
          by (metis prod_cases3)
        define rem0 where "rem0 =
          (case r of Inr True \<Rightarrow> rem | Inr False \<Rightarrow> rem @ [get_name c']
           | Inl e \<Rightarrow> rem @ [get_name c'])"
        obtain res1 rest1 evs1 w1 where
          r: "run_loop rest rc pid is_running rem0 (evs @ [RunCalled name]) w0 =
                (res1, rest1, evs1, w1)"
          by (metis prod_cases4)
        with Cons.prems item owned cl True run have eq: "res = res1" "evs' = evs1"
          by (auto simp: rem0_def)
        from Cons.IH [OF r] obtain new where new: "evs1 = (evs @ [RunCalled name]) @ new"
          "run_events_ok rest rc pid is_running new"
          "\<forall>rem'. res1 = Inr rem' \<longrightarrow> set rem0 \<subseteq> set rem'"
          "removal_ok rest rc pid is_running res1" by blast
        have sub: "set rem \<subseteq> set rem0"
          by (auto simp: rem0_def split: sum.splits bool.splits)
        have ev: "run_events_ok (item # rest) rc pid is_running (RunCalled name # new)"
          using new(2) item owned cl True by (fastforce simp: run_events_ok_def)
        have rm: "removal_ok (item # rest) rc pid is_running res"
          using new(4) item cl True eq by (auto simp: removal_ok_def)
        from new eq sub ev rm show ?thesis
          by (intro exI [of _ "RunCalled name # new"]) auto
      next
        case False
        obtain res1 rest1 evs1 w1 where
          r: "run_loop rest rc pid is_running (rem @ [get_name c]) evs w =
                (res1, rest1, evs1, w1)"
          by (metis prod_cases4)
        with Cons.prems item owned cl False have eq: "res = res1" "evs' = evs1" by auto
        from Cons.IH [OF r] obtain new where new: "evs1 = evs @ new"
          "run_events_ok rest rc pid is_running new"
          "\<forall>rem'. res1 = Inr rem' \<longrightarrow> set (rem @ [get_name c]) \<subseteq> set rem'"
          "removal_ok rest rc pid is_running res1" by blast
        have rm: "removal_ok (item # rest) rc pid is_running res"
          using new(3,4) item cl eq unfolding removal_ok_def by simp blast
        from new eq rm show ?thesis
          by (intro exI [of _ new]) (auto simp: run_events_ok_Cons)
      qed
    qed
  qed
qed

lemma run_loop_Inr:
  assumes "\<forall>item\<in>set items. snd item \<noteq> []"
  shows "\<exists>rem'. fst (run_loop items rc pid is_running rem evs w) = Inr rem'"
  using assms
proof (induction items arbitrary: rem evs w)
  case Nil
  show ?case by simp
next
  case (Cons item rest)
  obtain name cl where item: "item = (name, cl)" by (cases item)
  from Cons.prems item obtain c queue where cl: "cl = c # queue" by (cases cl) auto
  from Cons.prems have rest: "\<forall>item\<in>set rest. snd item \<noteq> []" by simp
  show ?case
  proof (cases "map_of rc name = Some pid")
    case False
    with Cons.IH [OF rest, of rem evs w] item show ?thesis
      by (auto split: prod.splits)
  next
    case True
    note owned = this
    show ?thesis
    proof (cases "is_running \<or> can_run_at_exit c")
      case True
      obtain r c' w0 where
        run: "change_run c (exclude_self pid (get_name c) rc) w = (r, c', w0)"
        by (metis prod_cases3)
      from Cons.IH [OF rest, of
          "case r of Inr True \<Rightarrow> rem | Inr False \<Rightarrow> rem @ [get_name c']
           | Inl e \<Rightarrow> rem @ [get_name c']" "evs @ [RunCalled name]" w0]
        item owned cl True run
      show ?thesis by (auto split: prod.splits)
    next
      case False
      with Cons.IH [OF rest, of "rem @ [get_name c]" evs w] item owned cl show ?thesis
        by (auto split: prod.splits)
    qed
  qed
qed

lemma run_events_not_run:
  assumes ok: "run_events_ok items rc pid False new"
    and d: "distinct (map fst items)"
    and mem: "(name, c # q) \<in> set items"
    and no: "\<not> can_run_at_exit c"
  shows "RunCalled name \<notin> set new"
proof
  assume "RunCalled name \<in> set new"
  with ok obtain c' q' where c': "(name, c' # q') \<in> set items" "can_run_at_exit c'"
    by (auto simp: run_events_ok_def)
  from d mem c'(1) have "c # q = c' # q'" by (meson eq_key_imp_eq_value)
  with c'(2) no show False by simp
qed

subsection \<open>What the phases of a step leave unchanged\<close>

text \<open>
  Registering and releasing do not call \<^verbatim>\<open>run\<close>, and leave \<^verbatim>\<open>self.running\<close> as it is;
  registering leaves the queues as they are.
\<close>

lemma no_run_simps:
  "no_run []" "no_run (a @ b) \<longleftrightarrow> no_run a \<and> no_run b"
  "no_run [LockTaken d]" "no_run [LockReleased]" "no_run [ChangeRegistered n i]"
  "no_run [ChangeUnregistered n]" "no_run [OnRemoveCalled n]"
  by (auto simp: no_run_def is_run_called_def)

lemma register_loop_frame:
  "changes (snd (register_loop items pid rc st)) = changes st \<and>
   running (snd (register_loop items pid rc st)) = running st \<and>
   world (snd (register_loop items pid rc st)) = world st \<and>
   (\<exists>new. events (snd (register_loop items pid rc st)) = events st @ new \<and> no_run new)"
proof (induction items arbitrary: rc st)
  case Nil
  show ?case by (simp add: no_run_simps)
next
  case (Cons item rest)
  obtain name cl where item: "item = (name, cl)" by (cases item)
  show ?case
  proof (cases cl)
    case Nil
    with item show ?thesis by (simp add: no_run_simps)
  next
    case (Cons c queue)
    note cl = this
    show ?thesis
    proof (cases "can_run c (exclude_self pid name rc) \<and> map_of rc name = None")
      case False
      then have "register_loop (item # rest) pid rc st = register_loop rest pid rc st"
        using item cl by (auto split: option.splits)
      with Cons.IH [of rc st] show ?thesis by simp
    next
      case True
      show ?thesis
      proof (cases "map_of (zk_changes st) name")
        case (Some owner)
        with True item cl show ?thesis
          by (simp add: register_change_def no_run_simps)
      next
        case None
        let ?st = "st\<lparr>zk_changes := zk_changes st @ [(name, pid)],
                       events := events st @ [ChangeRegistered name pid]\<rparr>"
        have step: "register_loop (item # rest) pid rc st =
            register_loop rest pid (rc @ [(name, pid)]) ?st"
          using True None item cl by (simp add: register_change_def)
        from Cons.IH [of "rc @ [(name, pid)]" ?st] obtain new where
          new: "events (snd (register_loop rest pid (rc @ [(name, pid)]) ?st)) =
                  events ?st @ new" "no_run new"
          by blast
        with Cons.IH [of "rc @ [(name, pid)]" ?st] show ?thesis
          unfolding step
          by (intro conjI exI [of _ "ChangeRegistered name pid # new"])
             (simp_all add: no_run_def is_run_called_def)
      qed
    qed
  qed
qed

lemma register_running_changes_frame:
  "changes (snd (register_running_changes st pid)) = changes st \<and>
   running (snd (register_running_changes st pid)) = running st \<and>
   world (snd (register_running_changes st pid)) = world st \<and>
   (\<exists>new. events (snd (register_running_changes st pid)) = events st @ new \<and> no_run new)"
proof (cases "changes st = []")
  case True
  then show ?thesis by (simp add: register_running_changes_def no_run_simps)
next
  case False
  let ?st = "lock (Some pid) st"
  obtain r st1 where
    rl: "register_loop (changes st) pid (get_running_changes ?st) ?st = (r, st1)"
    by (cases "register_loop (changes st) pid (get_running_changes ?st) ?st")
  from register_loop_frame [of "changes st" pid "get_running_changes ?st" ?st] rl
  obtain new where new: "changes st1 = changes ?st" "running st1 = running ?st"
    "world st1 = world ?st" "events st1 = events ?st @ new" "no_run new"
    by auto
  have res: "register_running_changes st pid = (r, unlock st1)"
    using False rl by (simp add: register_running_changes_def)
  from new show ?thesis
    unfolding res
    by (intro conjI exI [of _ "LockTaken (Some pid) # new @ [LockReleased]"])
       (simp_all add: lock_def unlock_def no_run_def is_run_called_def)
qed

lemma remove_loop_frame:
  "running (snd (remove_loop names st)) = running st \<and>
   (\<exists>new. events (snd (remove_loop names st)) = events st @ new \<and> no_run new)"
proof (induction names arbitrary: st)
  case Nil
  show ?case by (simp add: no_run_simps)
next
  case (Cons name rest)
  show ?case
  proof (cases "map_of (changes st) name")
    case None
    then show ?thesis by (simp add: no_run_simps)
  next
    case (Some cl)
    show ?thesis
    proof (cases cl)
      case Nil
      with Some show ?thesis by (simp add: no_run_simps)
    next
      case (Cons c queue)
      let ?st = "st\<lparr>changes :=
                  (if queue = [] then AList.delete name (changes st)
                   else AList.update name queue (changes st)),
                events := events st @ [OnRemoveCalled name],
                world := on_remove c (world st)\<rparr>"
      have step: "remove_loop (name # rest) st = remove_loop rest ?st"
        using Some Cons by simp
      from Cons.IH [of ?st] obtain new where
        new: "events (snd (remove_loop rest ?st)) = events ?st @ new" "no_run new"
        by blast
      with Cons.IH [of ?st] show ?thesis
        unfolding step
        by (intro conjI exI [of _ "OnRemoveCalled name # new"])
           (simp_all add: no_run_def is_run_called_def)
    qed
  qed
qed

lemma unregister_change_frame:
  "running (unregister_change name st) = running st"
  "events (unregister_change name st) = events st @ [ChangeUnregistered name]"
  by (simp_all add: unregister_change_def)

lemma fold_unregister_frame:
  "running (fold unregister_change names st) = running st \<and>
   (\<exists>new. events (fold unregister_change names st) = events st @ new \<and> no_run new)"
proof (induction names arbitrary: st)
  case Nil
  show ?case by (simp add: no_run_simps)
next
  case (Cons name rest)
  from Cons.IH [of "unregister_change name st"] obtain new where
    new: "running (fold unregister_change rest (unregister_change name st)) = running st"
      "events (fold unregister_change rest (unregister_change name st)) =
         events st @ ChangeUnregistered name # new" "no_run new"
    by (auto simp: unregister_change_frame)
  then show ?case
    by (intro conjI exI [of _ "ChangeUnregistered name # new"])
       (simp_all add: no_run_def is_run_called_def)
qed

lemma release_changes_lock_frame:
  "running (snd (release_changes_lock st names)) = running st \<and>
   (\<exists>new. events (snd (release_changes_lock st names)) = events st @ new \<and> no_run new)"
proof (cases "names = []")
  case True
  then show ?thesis by (simp add: release_changes_lock_def no_run_simps)
next
  case False
  obtain r st1 where rl: "remove_loop names st = (r, st1)" by (cases "remove_loop names st")
  from remove_loop_frame [of names st] rl obtain new1 where
    new1: "running st1 = running st" "events st1 = events st @ new1" "no_run new1"
    by auto
  show ?thesis
  proof (cases r)
    case (Some e)
    with False rl new1 show ?thesis
      by (intro conjI exI [of _ new1]) (simp_all add: release_changes_lock_def)
  next
    case None
    from fold_unregister_frame [of names "lock None st1"] obtain new2 where
      new2: "running (fold unregister_change names (lock None st1)) = running (lock None st1)"
        "events (fold unregister_change names (lock None st1)) =
           events (lock None st1) @ new2" "no_run new2"
      by blast
    with None False rl new1 show ?thesis
      by (intro conjI exI [of _ "new1 @ LockTaken None # new2 @ [LockReleased]"])
         (simp_all add: release_changes_lock_def lock_def unlock_def no_run_simps,
          simp add: no_run_def is_run_called_def)
  qed
qed

lemma run_changes_frame:
  "running (snd (run_changes st rc pid)) = running st \<and>
   (\<exists>new. events (snd (run_changes st rc pid)) = events st @ new \<and>
      run_events_ok (changes st) rc pid (running st) new)"
proof -
  obtain res items' evs' w' where
    r: "run_loop (changes st) rc pid (running st) [] (events st) (world st) =
          (res, items', evs', w')"
    by (metis prod_cases4)
  from run_loop_props [OF r] obtain new where
    "evs' = events st @ new" "run_events_ok (changes st) rc pid (running st) new"
    by blast
  with r show ?thesis by (simp add: run_changes_def)
qed

lemma no_run_not_called: "no_run new \<Longrightarrow> RunCalled name \<notin> set new"
  by (auto simp: no_run_def is_run_called_def)

lemma make_step_runs_only_at_exit:
  assumes stopped: "\<not> running st"
  shows "\<exists>new. events (snd (make_step time st pid)) = events st @ new \<and>
     (\<forall>name. RunCalled name \<in> set new \<longrightarrow>
        (\<exists>c q. (name, c # q) \<in> set (changes st) \<and> can_run_at_exit c))"
proof -
  obtain r1 st1 where reg: "register_running_changes st pid = (r1, st1)"
    by (cases "register_running_changes st pid")
  from register_running_changes_frame [of st pid] reg obtain n1 where
    n1: "changes st1 = changes st" "running st1 = running st"
      "events st1 = events st @ n1" "no_run n1"
    by auto
  show ?thesis
  proof (cases r1)
    case (Inl e)
    with reg n1 show ?thesis
      by (intro exI [of _ n1]) (simp add: make_step_def no_run_not_called)
  next
    case (Inr rc)
    note r1 = this
    obtain r2 st2 where run: "run_changes st1 rc pid = (r2, st2)"
      by (cases "run_changes st1 rc pid")
    from run_changes_frame [of st1 rc pid] run n1 stopped obtain n2 where
      n2: "running st2 = running st" "events st2 = events st @ n1 @ n2"
        "run_events_ok (changes st) rc pid False n2"
      by auto
    have called: "\<exists>c q. (name, c # q) \<in> set (changes st) \<and> can_run_at_exit c"
      if "RunCalled name \<in> set n2" for name
      using that n2(3) unfolding run_events_ok_def by blast
    show ?thesis
    proof (cases r2)
      case (Inl e)
      with reg r1 run n1 n2 called show ?thesis
        by (intro exI [of _ "n1 @ n2"]) (auto simp: make_step_def no_run_not_called)
    next
      case (Inr names)
      note r2 = this
      obtain r3 st3 where rel: "release_changes_lock st2 names = (r3, st3)"
        by (cases "release_changes_lock st2 names")
      from release_changes_lock_frame [of st2 names] rel n2 obtain n3 where
        n3: "running st3 = running st" "events st3 = events st @ n1 @ n2 @ n3" "no_run n3"
        by auto
      have "snd (make_step time st pid) = st3"
        using reg r1 run r2 rel n3(1) stopped
        by (cases r3) (simp_all add: make_step_def)
      with n1 n3 called show ?thesis
        by (intro exI [of _ "n1 @ n2 @ n3"]) (auto simp: no_run_not_called)
    qed
  qed
qed

lemma stop_not_running: "\<not> running (stop st change)"
  by (simp add: stop_def)

subsection \<open>Changes that cannot run at exit\<close>

text \<open>
  Claim C9. When the controller is not running, \<^verbatim>\<open>_run_changes\<close> calls \<^verbatim>\<open>run\<close> only on
  heads of queues that the provider owns and whose \<^verbatim>\<open>can_run_at_exit()\<close> is true. A head
  of a queue that the provider owns and whose \<^verbatim>\<open>can_run_at_exit()\<close> is false has its name
  among the names to remove when the loop ends, and (the keys of the dict being distinct)
  \<^verbatim>\<open>run\<close> is not called for its queue. The loop ends with the names to remove when no
  queue of the dict is empty. And in a whole \<^verbatim>\<open>make_step\<close> of a controller that is not
  running, as after \<^verbatim>\<open>stop\<close>, every call of \<^verbatim>\<open>run\<close> is on the head of a queue whose
  \<^verbatim>\<open>can_run_at_exit()\<close> is true.
\<close>

theorem run_changes_at_exit:
  "\<not> running st \<longrightarrow>
     (\<exists>new. events (snd (run_changes st rc pid)) = events st @ new \<and>
        (\<forall>e\<in>set new. \<exists>name c q. e = RunCalled name \<and> (name, c # q) \<in> set (changes st) \<and>
            map_of rc name = Some pid \<and> can_run_at_exit c) \<and>
        (\<forall>name c q. (name, c # q) \<in> set (changes st) \<and> map_of rc name = Some pid \<and>
            \<not> can_run_at_exit c \<longrightarrow>
              (\<forall>rem. fst (run_changes st rc pid) = Inr rem \<longrightarrow> get_name c \<in> set rem) \<and>
              (distinct (map fst (changes st)) \<longrightarrow> RunCalled name \<notin> set new))) \<and>
     ((\<forall>item\<in>set (changes st). snd item \<noteq> []) \<longrightarrow>
        (\<exists>rem. fst (run_changes st rc pid) = Inr rem)) \<and>
     (\<exists>new. events (snd (make_step time st pid)) = events st @ new \<and>
        (\<forall>name. RunCalled name \<in> set new \<longrightarrow>
           (\<exists>c q. (name, c # q) \<in> set (changes st) \<and> can_run_at_exit c)))"
proof (intro impI conjI)
  assume stopped: "\<not> running st"
  obtain res items' evs' w' where
    r: "run_loop (changes st) rc pid (running st) [] (events st) (world st) =
          (res, items', evs', w')"
    by (metis prod_cases4)
  then have rc_eq: "fst (run_changes st rc pid) = res"
      "events (snd (run_changes st rc pid)) = evs'"
    by (simp_all add: run_changes_def)
  from run_loop_props [OF r] stopped obtain new where new: "evs' = events st @ new"
    "run_events_ok (changes st) rc pid False new"
    "removal_ok (changes st) rc pid False res" by auto
  show "\<exists>new. events (snd (run_changes st rc pid)) = events st @ new \<and>
        (\<forall>e\<in>set new. \<exists>name c q. e = RunCalled name \<and> (name, c # q) \<in> set (changes st) \<and>
            map_of rc name = Some pid \<and> can_run_at_exit c) \<and>
        (\<forall>name c q. (name, c # q) \<in> set (changes st) \<and> map_of rc name = Some pid \<and>
            \<not> can_run_at_exit c \<longrightarrow>
              (\<forall>rem. fst (run_changes st rc pid) = Inr rem \<longrightarrow> get_name c \<in> set rem) \<and>
              (distinct (map fst (changes st)) \<longrightarrow> RunCalled name \<notin> set new))"
  proof (intro exI [of _ new] conjI allI impI ballI)
    show "events (snd (run_changes st rc pid)) = events st @ new"
      using rc_eq new(1) by simp
  next
    fix e assume "e \<in> set new"
    with new(2) show "\<exists>name c q. e = RunCalled name \<and> (name, c # q) \<in> set (changes st) \<and>
            map_of rc name = Some pid \<and> can_run_at_exit c"
      by (auto simp: run_events_ok_def)
  next
    fix name c q rem
    assume "(name, c # q) \<in> set (changes st) \<and> map_of rc name = Some pid \<and>
            \<not> can_run_at_exit c"
      and "fst (run_changes st rc pid) = Inr rem"
    with new(3) rc_eq show "get_name c \<in> set rem"
      unfolding removal_ok_def by simp blast
  next
    fix name c q
    assume "(name, c # q) \<in> set (changes st) \<and> map_of rc name = Some pid \<and>
            \<not> can_run_at_exit c"
      and "distinct (map fst (changes st))"
    with run_events_not_run [OF new(2)] show "RunCalled name \<notin> set new" by blast
  qed
next
  assume "\<forall>item\<in>set (changes st). snd item \<noteq> []"
  from run_loop_Inr [OF this, of rc pid "running st" "[]" "events st" "world st"]
  show "\<exists>rem. fst (run_changes st rc pid) = Inr rem"
    by (auto simp: run_changes_def split: prod.splits)
next
  assume "\<not> running st"
  then show "\<exists>new. events (snd (make_step time st pid)) = events st @ new \<and>
        (\<forall>name. RunCalled name \<in> set new \<longrightarrow>
           (\<exists>c q. (name, c # q) \<in> set (changes st) \<and> can_run_at_exit c))"
    by (rule make_step_runs_only_at_exit)
qed

lemma ex_run_changes:
  "run_changes ex_stopped_controller ex_registry ''1.1.1.1'' =
     (Inr [''restart'', ''swap_partitions''],
      ex_stopped_controller\<lparr>events := [RunCalled ''restart''], world := 8\<rparr>)"
  by (simp add: run_changes_def ex_stopped_controller_def ex_registry_def exclude_self_def)

theorem run_changes_at_exit_witness:
  "\<not> running ex_stopped_controller \<and>
   fst (run_changes ex_stopped_controller ex_registry ''1.1.1.1'') =
     Inr [''restart'', ''swap_partitions''] \<and>
   events (snd (run_changes ex_stopped_controller ex_registry ''1.1.1.1'')) =
     events ex_stopped_controller @ [RunCalled ''restart''] \<and>
   can_run_at_exit (done_change ''restart'' True) \<and>
   \<not> can_run_at_exit (done_change ''swap_partitions'' False) \<and>
   RunCalled ''swap_partitions'' \<notin> set [RunCalled ''restart'']"
proof -
  have stopped: "\<not> running ex_stopped_controller"
    by (simp add: ex_stopped_controller_def)
  note inst = run_changes_at_exit
    [where st = ex_stopped_controller and rc = ex_registry and pid = "''1.1.1.1''"
       and time = ex_time,
     THEN mp, OF stopped]
  from inst stopped ex_run_changes show ?thesis
    by (simp add: ex_stopped_controller_def)
qed

subsection \<open>A step without changes\<close>

lemma only_checks_append: "only_checks (a @ b) \<longleftrightarrow> only_checks a \<and> only_checks b"
  by (auto simp: only_checks_def)

lemma check_if_time_events:
  "\<exists>new. fst (snd (snd (check_if_time time ck evs w))) = evs @ new \<and> only_checks new"
  by (simp add: check_if_time_cases only_checks_def is_lock_taken_def is_run_called_def)

lemma add_change_to_queue_frame:
  "events (add_change_to_queue c st) = events st"
  "zk_changes (add_change_to_queue c st) = zk_changes st"
  "running (add_change_to_queue c st) = running st"
  by (simp_all add: add_change_to_queue_def split: option.split)

lemma probe_loop_frame:
  "\<exists>new. events (snd (snd (probe_loop time cks st))) = events st @ new \<and> only_checks new \<and>
     zk_changes (snd (snd (probe_loop time cks st))) = zk_changes st"
proof (induction cks arbitrary: st)
  case Nil
  show ?case by (simp add: only_checks_def)
next
  case (Cons ck rest)
  obtain r ck' evs w where c: "check_if_time time ck (events st) (world st) = (r, ck', evs, w)"
    by (metis prod_cases4)
  from check_if_time_events [of time ck "events st" "world st"] c
  obtain new1 where new1: "evs = events st @ new1" "only_checks new1" by auto
  show ?case
  proof (cases r)
    case (Inl e)
    with c new1 show ?thesis by (intro exI [of _ new1]) simp
  next
    case (Inr change)
    let ?st = "add_change_to_queue change (st\<lparr>events := evs, world := w\<rparr>)"
    obtain res2 rest2 st2 where p: "probe_loop time rest ?st = (res2, rest2, st2)"
      by (metis prod_cases3)
    from Cons.IH [of ?st] p obtain new2 where
      new2: "events st2 = events ?st @ new2" "only_checks new2" "zk_changes st2 = zk_changes ?st"
      by auto
    have "probe_loop time (ck # rest) st = (res2, ck' # rest2, st2)"
      using c Inr p by simp
    with new1 new2 show ?thesis
      by (intro exI [of _ "new1 @ new2"])
         (simp add: add_change_to_queue_frame only_checks_append)
  qed
qed

text \<open>
  Claim C7. For every call of \<^verbatim>\<open>make_step\<close> in which \<^verbatim>\<open>self.changes\<close> is empty at the
  start, none of the events of the step is the taking of the global lock, and the registry
  of changes in the store is as before. (The checks of the step may add changes; they are
  registered by the next step.)
\<close>

theorem make_step_idle_takes_no_lock:
  "changes st = [] \<longrightarrow>
     (\<exists>new. events (snd (make_step time st pid)) = events st @ new \<and>
        (\<forall>e\<in>set new. \<not> is_lock_taken e)) \<and>
     zk_changes (snd (make_step time st pid)) = zk_changes st"
proof
  assume idle: "changes st = []"
  have reg: "register_running_changes st pid = (Inr [], st)"
    using idle by (simp add: register_running_changes_def)
  have run: "run_changes st [] pid = (Inr [], st)"
    using idle by (simp add: run_changes_def)
  have rel: "release_changes_lock st [] = (None, st)"
    by (simp add: release_changes_lock_def)
  show "(\<exists>new. events (snd (make_step time st pid)) = events st @ new \<and>
        (\<forall>e\<in>set new. \<not> is_lock_taken e)) \<and>
     zk_changes (snd (make_step time st pid)) = zk_changes st"
  proof (cases "running st")
    case False
    then show ?thesis by (simp add: make_step_def reg run rel)
  next
    case True
    from probe_loop_frame [of time "checks st" st] obtain new where
      new: "events (snd (snd (probe_loop time (checks st) st))) = events st @ new"
        "only_checks new"
        "zk_changes (snd (snd (probe_loop time (checks st) st))) = zk_changes st"
      by blast
    from True new show ?thesis
      by (auto simp: make_step_def reg run rel only_checks_def split: prod.splits)
  qed
qed

theorem make_step_idle_takes_no_lock_witness:
  "changes ex_idle_controller = [] \<and>
   events (snd (make_step ex_time ex_idle_controller ''1.1.1.1'')) =
     events ex_idle_controller @ [CheckInvoked 0 7 8, CheckReturned] \<and>
   list_all (\<lambda>e. \<not> is_lock_taken e) [CheckInvoked 0 7 8, CheckReturned] \<and>
   zk_changes (snd (make_step ex_time ex_idle_controller ''1.1.1.1'')) = []"
proof -
  have idle: "changes ex_idle_controller = []" by (simp add: ex_idle_controller_def)
  have ev: "events (snd (make_step ex_time ex_idle_controller ''1.1.1.1'')) =
     [CheckInvoked 0 7 8, CheckReturned]"
    by (simp add: make_step_def register_running_changes_def run_changes_def
        release_changes_lock_def ex_idle_controller_def check_if_time_cases ex_time_def
        ex_check_def ex_double_5 add_change_to_queue_def)
  from make_step_idle_takes_no_lock
    [where st = ex_idle_controller and time = ex_time and pid = "''1.1.1.1''", THEN mp, OF idle]
    idle ev
  show ?thesis by (simp add: list_all_iff) (simp add: ex_idle_controller_def)
qed

end
